theory Spec2Isabelle
  imports Complex_Main "HOL-Library.AList"
begin

section \<open>The graph data model\<close>

text \<open>
  The assembler in \<^verbatim>\<open>tensorflow/python/ops/while_v2.py\<close> works on graph tensors and
  operations. An operation lives in one graph, has a name that is unique in that graph, a
  type string, and input tensors; a tensor is one output of an operation. Python compares
  tensors by object identity; here a tensor is identified by its producing operation and
  its output index, so structural equality is that identity. Of the attributes of an
  operation only the value of a constant is kept, and only when it is a whole number: the
  constants this file creates are \<^verbatim>\<open>0.\<close> and \<^verbatim>\<open>1\<close>.
\<close>

datatype dtype = DT_FLOAT | DT_INT32 | DT_BOOL | DT_RESOURCE | DT_VARIANT

text \<open>A \<^verbatim>\<open>TensorShape\<close>: unknown rank is \<open>None\<close>, an unknown dimension is \<open>None\<close>.\<close>

type_synonym tensor_shape = "nat option list option"

datatype operation =
  Operation (op_graph: nat) (op_name: nat) (op_type: string) (op_inputs: "tensor list")
    (op_output_types: "(dtype \<times> tensor_shape) list") (op_value: "nat option")
and tensor =
  Tensor (t_op: operation) (value_index: nat) (t_dtype: dtype) (t_shape: tensor_shape)

text \<open>\<^verbatim>\<open>op.outputs\<close>: one tensor per declared output type.\<close>

definition op_outputs :: "operation \<Rightarrow> tensor list" where
  "op_outputs p =
     map (\<lambda>i. Tensor p i (fst (op_output_types p ! i)) (snd (op_output_types p ! i)))
       [0..<length (op_output_types p)]"

text \<open>\<^verbatim>\<open>tensor.graph\<close>, as the identifier of the graph of the producing operation.\<close>

definition t_graph :: "tensor \<Rightarrow> nat" where
  "t_graph t = op_graph (t_op t)"

text \<open>Every failure of the source is a value.\<close>

datatype error =
    StructureMismatch
  | PackError
  | IndexError
  | NotInList
  | CaptureAmbiguity tensor
  | ShapeError tensor tensor_shape tensor_shape
  | ArityError
  | MissingGradient
  | UnpackError
  | NotInForwardGraph tensor
  | ResourceCreated tensor
  | NotLoopInvariant tensor
  | UnaccumulatedIntermediate tensor
  | InternalCaptureError tensor
  | AssertionFailed
  | BuildError

section \<open>Nested structures of loop-carried values\<close>

text \<open>
  Modelled from the spec: the \<^verbatim>\<open>nest\<close> utility is not among the sources. A loop-carried
  structure is a nested sequence whose leaves are arrays or array-valued variables
  (spec, section 3 and the round-trip property of section 8). \<open>flatten\<close> lists the leaves
  left to right, \<open>assert_same_structure\<close> compares the nesting, \<open>map_structure\<close> maps
  the leaves, and \<open>pack_sequence_as\<close> refills a structure from a flat list and fails
  when the counts differ.
\<close>

datatype 'a nest = Leaf 'a | Seq "'a nest list"

primrec flatten :: "'a nest \<Rightarrow> 'a list" where
  "flatten (Leaf x) = [x]"
| "flatten (Seq xs) = concat (map flatten xs)"

primrec map_structure :: "('a \<Rightarrow> 'b) \<Rightarrow> 'a nest \<Rightarrow> 'b nest" where
  "map_structure f (Leaf x) = Leaf (f x)"
| "map_structure f (Seq xs) = Seq (map (map_structure f) xs)"

fun same_structure :: "'a nest \<Rightarrow> 'b nest \<Rightarrow> bool" where
  "same_structure (Leaf _) (Leaf _) = True"
| "same_structure (Seq xs) (Seq ys) = list_all2 same_structure xs ys"
| "same_structure _ _ = False"

fun pack_nest :: "'a nest \<Rightarrow> 'b list \<Rightarrow> ('b nest \<times> 'b list) option"
  and pack_list :: "'a nest list \<Rightarrow> 'b list \<Rightarrow> ('b nest list \<times> 'b list) option" where
  "pack_nest (Leaf _) flat = (case flat of [] \<Rightarrow> None | y # r \<Rightarrow> Some (Leaf y, r))"
| "pack_nest (Seq xs) flat =
     (case pack_list xs flat of None \<Rightarrow> None | Some (ys, r) \<Rightarrow> Some (Seq ys, r))"
| "pack_list [] flat = Some ([], flat)"
| "pack_list (x # xs) flat =
     (case pack_nest x flat of None \<Rightarrow> None
      | Some (y, r) \<Rightarrow>
          (case pack_list xs r of None \<Rightarrow> None | Some (ys, r') \<Rightarrow> Some (y # ys, r')))"

definition pack_sequence_as :: "'a nest \<Rightarrow> 'b list \<Rightarrow> error + 'b nest" where
  "pack_sequence_as structure flat_sequence =
     (case structure of
        Leaf _ \<Rightarrow>
          (if length flat_sequence \<noteq> 1 then Inl PackError else Inr (Leaf (flat_sequence ! 0)))
      | Seq _ \<Rightarrow>
          (if length (flatten structure) \<noteq> length flat_sequence then Inl PackError
           else (case pack_nest structure flat_sequence of
                   None \<Rightarrow> Inl PackError
                 | Some (packed, _) \<Rightarrow> Inr packed)))"

section \<open>Array-valued loop variables and their flow handles\<close>

text \<open>
  A loop-carried value is a tensor or a \<^verbatim>\<open>TensorArray\<close>. The record keeps the fields
  that \<^verbatim>\<open>flow_to_tensor_array\<close> (lines 778-791) copies.
\<close>

record tensor_array =
  ta_dtype :: dtype
  ta_handle :: tensor
  ta_flow :: tensor
  ta_infer_shape :: bool
  ta_colocate_with_first_write_call :: bool
  ta_colocate_with :: "nat list"
  ta_element_shape :: tensor_shape

datatype loop_val = LTensor tensor | LTensorArray tensor_array

text \<open>\<^verbatim>\<open>_tensor_array_to_flow\<close> (lines 800-807).\<close>

definition to_flow :: "loop_val \<Rightarrow> tensor" where
  "to_flow v = (case v of LTensorArray ta \<Rightarrow> ta_flow ta | LTensor t \<Rightarrow> t)"

definition tensor_array_to_flow :: "loop_val nest \<Rightarrow> tensor nest" where
  "tensor_array_to_flow loop_vars = map_structure to_flow loop_vars"

text \<open>\<^verbatim>\<open>_pack_sequence_as\<close> (lines 775-797).\<close>

definition flow_to_tensor_array :: "tensor \<Rightarrow> loop_val \<Rightarrow> loop_val" where
  "flow_to_tensor_array flow ta =
     (case ta of
        LTensorArray a \<Rightarrow> LTensorArray (a\<lparr>ta_flow := flow\<rparr>)
      | LTensor _ \<Rightarrow> LTensor flow)"

definition pack_sequence_as_tas :: "loop_val nest \<Rightarrow> tensor list \<Rightarrow> error + loop_val nest" where
  "pack_sequence_as_tas structure_with_tas loop_vars =
     pack_sequence_as structure_with_tas
       (map (\<lambda>(flow, ta). flow_to_tensor_array flow ta)
          (zip loop_vars (flatten structure_with_tas)))"

subsection \<open>What \<^verbatim>\<open>while_loop\<close> returns (lines 213 and 240-245)\<close>

text \<open>
  \<open>outputs\<close> are the identities of the outputs of the emitted operator; the first is the
  iteration counter. \<^verbatim>\<open>outputs[1]\<close> raises when there is no such element; the slice
  \<^verbatim>\<open>outputs[1:1 + n]\<close> never does.
\<close>

definition while_loop_return :: "loop_val nest list \<Rightarrow> tensor list \<Rightarrow> error + loop_val nest" where
  "while_loop_return orig_loop_vars outputs =
     (let num_flattened_outputs = length (flatten (Seq orig_loop_vars)) in
      if num_flattened_outputs = 1 then
        (if 1 < length outputs then Inr (Leaf (LTensor (outputs ! 1))) else Inl IndexError)
      else pack_sequence_as_tas (Seq orig_loop_vars)
             (take num_flattened_outputs (drop 1 outputs)))"

section \<open>Graphs and sub-programs\<close>

text \<open>
  Modelled from the spec: the graph representation and the closure builder are external
  collaborators (spec, sections 1, 3 and 6; \<^verbatim>\<open>ops.py\<close> and \<^verbatim>\<open>func_graph.py\<close> are not
  among the sources). A graph lists its operations in creation order and hands out
  operation names that are unused so far. A sub-program (\<^verbatim>\<open>FuncGraph\<close>) adds the ordered
  input placeholders, the ordered outputs, and the ordered captures, each an external
  value paired with the placeholder that stands for it inside the sub-program.
\<close>

record graph =
  g_id :: nat
  g_operations :: "operation list"
  g_next :: nat

record func_graph = graph +
  fg_inputs :: "tensor list"
  fg_outputs :: "tensor list"
  fg_captures :: "(tensor \<times> tensor) list"

definition external_captures :: "'a func_graph_scheme \<Rightarrow> tensor list" where
  "external_captures fg = map fst (fg_captures fg)"

definition internal_captures :: "'a func_graph_scheme \<Rightarrow> tensor list" where
  "internal_captures fg = map snd (fg_captures fg)"

text \<open>\<^verbatim>\<open>tensor.consumers()\<close>: the operations of the tensor's graph that read it.\<close>

definition consumers :: "'a graph_scheme \<Rightarrow> tensor \<Rightarrow> operation list" where
  "consumers g t = filter (\<lambda>p. t \<in> set (op_inputs p)) (g_operations g)"

text \<open>\<^verbatim>\<open>list.index\<close>: the first position of an element; Python raises when there is none.\<close>

fun index_of :: "'a list \<Rightarrow> 'a \<Rightarrow> nat option" where
  "index_of [] x = None"
| "index_of (y # ys) x = (if y = x then Some 0 else map_option Suc (index_of ys x))"

text \<open>A new operation takes the next unused name of its graph.\<close>

definition create_op ::
  "'a graph_scheme \<Rightarrow> string \<Rightarrow> tensor list \<Rightarrow> (dtype \<times> tensor_shape) list
     \<Rightarrow> 'a graph_scheme \<times> operation" where
  "create_op g ty ins outs =
     (let p = Operation (g_id g) (g_next g) ty ins outs None
      in (g\<lparr>g_operations := g_operations g @ [p], g_next := Suc (g_next g)\<rparr>, p))"

text \<open>
  \<^verbatim>\<open>constant_op.constant\<close> of a whole number: a \<^verbatim>\<open>Const\<close> operation without inputs
  that carries the value; a Python number becomes a \<^verbatim>\<open>float32\<close> scalar.
\<close>

definition constant_op :: "'a graph_scheme \<Rightarrow> nat \<Rightarrow> 'a graph_scheme \<times> tensor" where
  "constant_op g v =
     (let p = Operation (g_id g) (g_next g) ''Const'' [] [(DT_FLOAT, Some [])] (Some v)
      in (g\<lparr>g_operations := g_operations g @ [p], g_next := Suc (g_next g)\<rparr>,
          Tensor p 0 DT_FLOAT (Some [])))"

text \<open>
  Capture (spec, glossary): a reference to a value defined outside the sub-program is
  resolved into an explicit extra input. A value captured before keeps its placeholder;
  a value of the sub-program itself is returned as it is.
\<close>

definition capture_helper :: "'a func_graph_scheme \<Rightarrow> tensor \<Rightarrow> 'a func_graph_scheme \<times> tensor" where
  "capture_helper fg t =
     (case map_of (fg_captures fg) t of
        Some captured_tensor \<Rightarrow> (fg, captured_tensor)
      | None \<Rightarrow>
          (let (fg', p) = create_op fg ''Placeholder'' [] [(t_dtype t, t_shape t)];
               captured_tensor = Tensor p 0 (t_dtype t) (t_shape t)
           in (fg'\<lparr>fg_captures := fg_captures fg' @ [(t, captured_tensor)],
                   fg_inputs := fg_inputs fg' @ [captured_tensor]\<rparr>, captured_tensor)))"

definition capture :: "func_graph \<Rightarrow> tensor \<Rightarrow> func_graph \<times> tensor" where
  "capture fg t = (if t_graph t \<noteq> g_id fg then capture_helper fg t else (fg, t))"

text \<open>Creating an operation inside a sub-program captures each of its inputs first.\<close>

fun capture_all :: "func_graph \<Rightarrow> tensor list \<Rightarrow> func_graph \<times> tensor list" where
  "capture_all fg [] = (fg, [])"
| "capture_all fg (t # ts) =
     (let (fg1, t') = capture fg t; (fg2, ts') = capture_all fg1 ts in (fg2, t' # ts'))"

definition fg_create_op ::
  "func_graph \<Rightarrow> string \<Rightarrow> tensor list \<Rightarrow> (dtype \<times> tensor_shape) list
     \<Rightarrow> func_graph \<times> operation" where
  "fg_create_op fg ty ins outs =
     (let (fg1, ins') = capture_all fg ins in create_op fg1 ty ins' outs)"

text \<open>
  Modelled from the spec: \<^verbatim>\<open>list_ops\<close> is not among the sources. An accumulator is a
  growable list value, created empty before the loop and appended to once per body
  invocation (spec, section 3): the empty list is an operation of the enclosing graph
  with one variant output, the append an operation of the body that reads the list and
  the value. Their shape and size operands are left out.
\<close>

definition variant_scalar :: "dtype \<times> tensor_shape" where
  "variant_scalar = (DT_VARIANT, Some [])"

definition empty_tensor_list :: "graph \<Rightarrow> graph \<times> tensor" where
  "empty_tensor_list g =
     (let (g', p) = create_op g ''EmptyTensorList'' [] [variant_scalar]
      in (g', Tensor p 0 DT_VARIANT (Some [])))"

definition tensor_list_push_back :: "func_graph \<Rightarrow> tensor \<Rightarrow> tensor \<Rightarrow> func_graph \<times> tensor" where
  "tensor_list_push_back fg input_handle t =
     (let (fg', p) = fg_create_op fg ''TensorListPushBack'' [input_handle, t] [variant_scalar]
      in (fg', Tensor p 0 DT_VARIANT (Some [])))"

section \<open>The Accumulation Manager\<close>

subsection \<open>\<^verbatim>\<open>_get_accumulator\<close> (lines 474-531)\<close>

text \<open>
  \<open>get_func_graph_output\<close> is the inner function of lines 503-512: \<^verbatim>\<open>t.consumers()[0]\<close>
  raises when \<open>t\<close> is not an output and nothing reads it. The loop of lines 514-531 goes
  through the consumers of the tensor in order.
\<close>

definition get_func_graph_output :: "'a func_graph_scheme \<Rightarrow> tensor \<Rightarrow> error + tensor option" where
  "get_func_graph_output fg t =
     (if t \<in> set (fg_outputs fg) then Inr (Some t)
      else (case consumers fg t of
              [] \<Rightarrow> Inl IndexError
            | identity_op # _ \<Rightarrow>
                if op_type identity_op = ''Identity'' then
                  (case op_outputs identity_op of
                     [] \<Rightarrow> Inl IndexError
                   | out # _ \<Rightarrow> if out \<in> set (fg_outputs fg) then Inr (Some out) else Inr None)
                else Inr None))"

fun get_accumulator_loop :: "'a func_graph_scheme \<Rightarrow> operation list \<Rightarrow> error + tensor option" where
  "get_accumulator_loop fg [] = Inr None"
| "get_accumulator_loop fg (consumer # rest) =
     (if op_type consumer \<noteq> ''TensorListPushBack'' then get_accumulator_loop fg rest
      else (case op_inputs consumer of
              [] \<Rightarrow> Inl IndexError
            | input_tl # _ \<Rightarrow>
                if input_tl \<notin> set (fg_inputs fg) then get_accumulator_loop fg rest
                else (case op_outputs consumer of
                        [] \<Rightarrow> Inl IndexError
                      | output_tl # _ \<Rightarrow>
                          (case get_func_graph_output fg output_tl of
                             Inl e \<Rightarrow> Inl e
                           | Inr None \<Rightarrow> get_accumulator_loop fg rest
                           | Inr (Some output) \<Rightarrow>
                               (case (index_of (fg_inputs fg) input_tl,
                                      index_of (fg_outputs fg) output) of
                                  (Some accum_input_idx, Some accum_output_idx) \<Rightarrow>
                                    if accum_input_idx = accum_output_idx then Inr (Some output)
                                    else get_accumulator_loop fg rest
                                | _ \<Rightarrow> Inl NotInList)))))"

definition get_accumulator :: "'a func_graph_scheme \<Rightarrow> tensor \<Rightarrow> error + tensor option" where
  "get_accumulator fg t = get_accumulator_loop fg (consumers fg t)"

subsection \<open>\<^verbatim>\<open>_get_intermediates\<close> (lines 435-471)\<close>

text \<open>
  The inner loop over the outputs of one operation, then the outer loop over the
  operations. \<^verbatim>\<open>func_graph.inputs[0]\<close> raises on a sub-program without inputs.
\<close>

fun intermediates_of_outputs :: "'a func_graph_scheme \<Rightarrow> tensor list \<Rightarrow> error + tensor list" where
  "intermediates_of_outputs fg [] = Inr []"
| "intermediates_of_outputs fg (out # rest) =
     (case fg_inputs fg of
        [] \<Rightarrow> Inl IndexError
      | loop_counter # _ \<Rightarrow>
          if out \<noteq> loop_counter \<and> t_dtype out \<noteq> DT_RESOURCE then
            (case get_accumulator fg out of
               Inl e \<Rightarrow> Inl e
             | Inr acc \<Rightarrow>
                 (case intermediates_of_outputs fg rest of
                    Inl e \<Rightarrow> Inl e
                  | Inr r \<Rightarrow> Inr (if acc = None then out # r else r)))
          else intermediates_of_outputs fg rest)"

fun intermediates_of_ops :: "'a func_graph_scheme \<Rightarrow> operation list \<Rightarrow> error + tensor list" where
  "intermediates_of_ops fg [] = Inr []"
| "intermediates_of_ops fg (p # rest) =
     (if op_type p = ''Identity'' then intermediates_of_ops fg rest
      else (case intermediates_of_outputs fg (op_outputs p) of
              Inl e \<Rightarrow> Inl e
            | Inr xs \<Rightarrow>
                (case intermediates_of_ops fg rest of
                   Inl e \<Rightarrow> Inl e
                 | Inr ys \<Rightarrow> Inr (xs @ ys))))"

definition get_intermediates :: "'a func_graph_scheme \<Rightarrow> error + tensor list" where
  "get_intermediates fg = intermediates_of_ops fg (g_operations fg)"

section \<open>The Forward Loop Assembler\<close>

text \<open>
  The local variables of \<^verbatim>\<open>while_loop\<close> once both sub-programs are built: the enclosing
  graph, the loop-carried list (counter first), and the two sub-programs.
\<close>

record assembly =
  outer_graph :: graph
  loop_vars :: "tensor nest list"
  cond_graph :: func_graph
  body_graph :: func_graph

subsection \<open>Lines 164-183: the captures of the body\<close>

definition add_body_captures :: "assembly \<Rightarrow> assembly" where
  "add_body_captures st =
     st\<lparr>loop_vars := loop_vars st @ map Leaf (external_captures (body_graph st)),
        body_graph := (body_graph st)
          \<lparr>fg_outputs := fg_outputs (body_graph st) @ internal_captures (body_graph st)\<rparr>\<rparr>"

text \<open>
  The loop of lines 178-183: the assertion fails on the first external capture of the
  body that is a key of the captures of the condition; otherwise the condition captures it.
\<close>

fun reconcile_captures :: "func_graph \<Rightarrow> tensor list \<Rightarrow> error + func_graph" where
  "reconcile_captures cond [] = Inr cond"
| "reconcile_captures cond (external_capture # rest) =
     (if external_capture \<in> set (external_captures cond) then Inl (CaptureAmbiguity external_capture)
      else reconcile_captures (fst (capture cond external_capture)) rest)"

subsection \<open>Lines 185-208: one accumulator per intermediate\<close>

definition accumulate_step :: "assembly \<Rightarrow> tensor \<Rightarrow> assembly" where
  "accumulate_step st intermediate_tensor =
     (let (outer', tensor_list) = empty_tensor_list (outer_graph st);
          loop_vars' = loop_vars st @ [Leaf tensor_list];
          (cond', _) = capture (cond_graph st) tensor_list;
          (body', appended_tensor_list) =
             tensor_list_push_back (body_graph st) tensor_list intermediate_tensor
      in \<lparr>outer_graph = outer', loop_vars = loop_vars', cond_graph = cond',
          body_graph = body'\<lparr>fg_outputs := fg_outputs body' @ [appended_tensor_list]\<rparr>\<rparr>)"

definition accumulate_all :: "assembly \<Rightarrow> tensor list \<Rightarrow> assembly" where
  "accumulate_all st intermediate_tensors = foldl accumulate_step st intermediate_tensors"

definition accumulation_manager :: "assembly \<Rightarrow> error + assembly" where
  "accumulation_manager st =
     (case get_intermediates (body_graph st) of
        Inl e \<Rightarrow> Inl e
      | Inr intermediate_tensors \<Rightarrow> Inr (accumulate_all st intermediate_tensors))"

subsection \<open>Lines 210-220 and 685-708: validation\<close>

text \<open>
  Modelled from the spec: \<^verbatim>\<open>control_flow_ops._ShapeLessThanOrEqual\<close> is not among the
  sources. The output shape must be an instance of the invariant shape: wildcard
  dimensions of the invariant are unconstrained, concrete dimensions must match exactly
  (spec, section 4.1, step 6).
\<close>

definition shape_less_than_or_equal :: "tensor_shape \<Rightarrow> tensor_shape \<Rightarrow> bool" where
  "shape_less_than_or_equal shape1 shape2 =
     (case shape2 of
        None \<Rightarrow> True
      | Some dims2 \<Rightarrow>
          (case shape1 of
             None \<Rightarrow> False
           | Some dims1 \<Rightarrow>
               length dims1 = length dims2
               \<and> list_all2 (\<lambda>dim1 dim2. dim2 = None \<or> dim1 = dim2) dims1 dims2))"

text \<open>\<^verbatim>\<open>_check_shapes_compat\<close> (lines 685-693); \<^verbatim>\<open>zip\<close> stops at the shortest list.\<close>

fun check_shapes_compat :: "tensor list \<Rightarrow> tensor_shape list \<Rightarrow> tensor list \<Rightarrow> error + unit" where
  "check_shapes_compat (t # output_tensors) (shape # shape_invariants) (input_t # input_tensors) =
     (if \<not> shape_less_than_or_equal (t_shape t) shape
      then Inl (ShapeError input_t shape (t_shape t))
      else check_shapes_compat output_tensors shape_invariants input_tensors)"
| "check_shapes_compat _ _ _ = Inr ()"

text \<open>\<^verbatim>\<open>_check_num_inputs_outputs\<close> (lines 696-708).\<close>

definition check_num_inputs_outputs ::
  "'a func_graph_scheme \<Rightarrow> 'b func_graph_scheme \<Rightarrow> nat \<Rightarrow> error + unit" where
  "check_num_inputs_outputs cond_g body_g num_flattened_loop_vars =
     (if length (fg_inputs cond_g) \<noteq> num_flattened_loop_vars then Inl ArityError
      else if length (fg_outputs cond_g) \<noteq> 1 then Inl ArityError
      else if length (fg_inputs body_g) \<noteq> num_flattened_loop_vars then Inl ArityError
      else if length (fg_outputs body_g) \<noteq> num_flattened_loop_vars then Inl ArityError
      else Inr ())"

text \<open>
  The call of lines 213-217 in \<^verbatim>\<open>while_loop\<close>: the outputs after the counter, the
  invariants and the loop-carried inputs of the caller's loop variables.
\<close>

definition check_loop_shapes ::
  "loop_val nest list \<Rightarrow> tensor_shape nest list \<Rightarrow> assembly \<Rightarrow> error + unit" where
  "check_loop_shapes orig_loop_vars shape_invariants st =
     (let len_orig_loop_vars = length orig_loop_vars;
          num_flattened_outputs = length (flatten (Seq orig_loop_vars))
      in check_shapes_compat
           (take num_flattened_outputs (drop 1 (fg_outputs (body_graph st))))
           (flatten (Seq (take len_orig_loop_vars (drop 1 shape_invariants))))
           (flatten (Seq (take len_orig_loop_vars (drop 1 (loop_vars st))))))"

subsection \<open>Lines 222-238: the operator and its pass-through outputs\<close>

text \<open>
  Modelled from the spec: \<^verbatim>\<open>gen_functional_ops._while\<close> and \<^verbatim>\<open>array_ops.identity\<close> are
  not among the sources. The loop operator takes the flattened loop-carried list as its
  inputs and has one output per input, of the input's type and with the shape of the
  matching body output; one pass-through output node is produced per output (spec,
  sections 3 and 4.1, step 7). The lowering attribute and the handle data are not part
  of this model.
\<close>

definition emit_while :: "graph \<Rightarrow> tensor list \<Rightarrow> tensor_shape list \<Rightarrow> graph \<times> tensor list" where
  "emit_while g flattened_loop_vars output_shapes =
     (let (g', p) = create_op g ''While'' flattened_loop_vars
                      (map (\<lambda>(t, s). (t_dtype t, s)) (zip flattened_loop_vars output_shapes))
      in (g', op_outputs p))"

definition identity :: "graph \<Rightarrow> tensor \<Rightarrow> graph \<times> tensor" where
  "identity g t =
     (let (g', p) = create_op g ''Identity'' [t] [(t_dtype t, t_shape t)]
      in (g', Tensor p 0 (t_dtype t) (t_shape t)))"

fun identities :: "graph \<Rightarrow> tensor list \<Rightarrow> graph \<times> tensor list" where
  "identities g [] = (g, [])"
| "identities g (t # ts) =
     (let (g1, t') = identity g t; (g2, ts') = identities g1 ts in (g2, t' # ts'))"

subsection \<open>Lines 164-245 together\<close>

definition while_loop_assemble ::
  "loop_val nest list \<Rightarrow> tensor_shape nest list \<Rightarrow> assembly \<Rightarrow> error + assembly \<times> loop_val nest" where
  "while_loop_assemble orig_loop_vars shape_invariants st0 =
     (let st1 = add_body_captures st0 in
      case reconcile_captures (cond_graph st1) (external_captures (body_graph st1)) of
        Inl e \<Rightarrow> Inl e
      | Inr cond' \<Rightarrow>
          (case accumulation_manager (st1\<lparr>cond_graph := cond'\<rparr>) of
             Inl e \<Rightarrow> Inl e
           | Inr st2 \<Rightarrow>
               (case check_loop_shapes orig_loop_vars shape_invariants st2 of
                  Inl e \<Rightarrow> Inl e
                | Inr _ \<Rightarrow>
                    (let flattened_loop_vars = flatten (Seq (loop_vars st2)) in
                     case check_num_inputs_outputs (cond_graph st2) (body_graph st2)
                            (length flattened_loop_vars) of
                       Inl e \<Rightarrow> Inl e
                     | Inr _ \<Rightarrow>
                         (let (g1, outputs) =
                                emit_while (outer_graph st2) flattened_loop_vars
                                  (map t_shape (fg_outputs (body_graph st2)));
                              (g2, outputs') = identities g1 outputs
                          in case while_loop_return orig_loop_vars outputs' of
                               Inl e \<Rightarrow> Inl e
                             | Inr r \<Rightarrow> Inr (st2\<lparr>outer_graph := g2\<rparr>, r))))))"

subsection \<open>Lines 61-163: the loop-carried list and the two sub-programs\<close>

text \<open>
  The closure builder is a parameter: \<open>build_cond\<close> and \<open>build_body\<close> stand for
  \<^verbatim>\<open>func_graph_from_py_func\<close> applied to \<^verbatim>\<open>wrapped_cond\<close> and \<^verbatim>\<open>wrapped_body\<close>; they
  receive the loop-carried list and the shape invariants of the signature.
\<close>

definition while_loop ::
  "(tensor nest list \<Rightarrow> tensor_shape nest list \<Rightarrow> error + func_graph)
   \<Rightarrow> (tensor nest list \<Rightarrow> tensor_shape nest list \<Rightarrow> error + func_graph)
   \<Rightarrow> graph \<Rightarrow> loop_val nest list \<Rightarrow> tensor_shape nest list option
   \<Rightarrow> error + assembly \<times> loop_val nest" where
  "while_loop build_cond build_body g orig_loop_vars shape_invariants =
     (let loop_vars0 = map tensor_array_to_flow orig_loop_vars in
      case (case shape_invariants of
              Some si \<Rightarrow> if same_structure (Seq orig_loop_vars) (Seq si) then Inr si
                         else Inl StructureMismatch
            | None \<Rightarrow> Inr (map (map_structure t_shape) loop_vars0)) of
        Inl e \<Rightarrow> Inl e
      | Inr si0 \<Rightarrow>
          (let (g1, loop_counter) = constant_op g 0;
               loop_vars1 = Leaf loop_counter # loop_vars0;
               si1 = Leaf (Some []) # si0
           in case build_cond loop_vars1 si1 of
                Inl e \<Rightarrow> Inl e
              | Inr cond_g \<Rightarrow>
                  (let loop_vars2 = loop_vars1 @ map Leaf (external_captures cond_g);
                       si2 = si1 @ map (\<lambda>t. Leaf (t_shape t)) (external_captures cond_g)
                   in case build_body loop_vars2 si2 of
                        Inl e \<Rightarrow> Inl e
                      | Inr body_g \<Rightarrow>
                          while_loop_assemble orig_loop_vars si2
                            \<lparr>outer_graph = g1, loop_vars = loop_vars2,
                             cond_graph = cond_g, body_graph = body_g\<rparr>)))"

section \<open>Well-formed graphs\<close>

text \<open>
  Notions used in the statements about graphs. Operation names are handed out in
  increasing order, so every operation a graph knows has a name below the next unused one;
  the operations of a sub-program belong to it and read values of the sub-program only
  (creating an operation captures its inputs).
\<close>

definition known_in :: "'a graph_scheme \<Rightarrow> tensor \<Rightarrow> bool" where
  "known_in g t \<longleftrightarrow> (t_graph t = g_id g \<longrightarrow> op_name (t_op t) < g_next g)"

definition wf_func_graph :: "'a func_graph_scheme \<Rightarrow> bool" where
  "wf_func_graph fg \<longleftrightarrow>
     (\<forall>p \<in> set (g_operations fg).
        op_graph p = g_id fg \<and> op_name p < g_next fg
        \<and> (\<forall>i \<in> set (op_inputs p). op_name (t_op i) < g_next fg))
     \<and> (\<forall>t \<in> set (fg_inputs fg). op_name (t_op t) < g_next fg)
     \<and> (\<forall>t \<in> set (fg_outputs fg). op_name (t_op t) < g_next fg)"

definition wf_assembly :: "assembly \<Rightarrow> bool" where
  "wf_assembly st \<longleftrightarrow>
     wf_func_graph (body_graph st)
     \<and> g_id (outer_graph st) \<noteq> g_id (body_graph st)
     \<and> g_id (outer_graph st) \<noteq> g_id (cond_graph st)
     \<and> (\<forall>e \<in> set (external_captures (body_graph st)). known_in (outer_graph st) e)
     \<and> (\<forall>e \<in> set (external_captures (cond_graph st)). known_in (outer_graph st) e)"

text \<open>The three values one accumulation step creates.\<close>

definition new_tensor_list :: "graph \<Rightarrow> tensor" where
  "new_tensor_list g =
     Tensor (Operation (g_id g) (g_next g) ''EmptyTensorList'' [] [variant_scalar] None) 0 DT_VARIANT
       (Some [])"

definition new_placeholder :: "'a graph_scheme \<Rightarrow> tensor \<Rightarrow> tensor" where
  "new_placeholder g t =
     Tensor (Operation (g_id g) (g_next g) ''Placeholder'' [] [(t_dtype t, t_shape t)] None) 0
       (t_dtype t) (t_shape t)"

definition new_push_back :: "func_graph \<Rightarrow> tensor \<Rightarrow> tensor \<Rightarrow> tensor" where
  "new_push_back fg tensor_list t =
     Tensor (Operation (g_id fg) (Suc (g_next fg)) ''TensorListPushBack''
               [new_placeholder fg tensor_list, t] [variant_scalar] None) 0 DT_VARIANT (Some [])"

definition valid_intermediates :: "assembly \<Rightarrow> tensor list \<Rightarrow> bool" where
  "valid_intermediates st ts \<longleftrightarrow>
     (\<forall>t \<in> set ts. t_graph t = g_id (body_graph st) \<and> op_name (t_op t) < g_next (body_graph st))"

text \<open>The condition of lines 467-469 on one output.\<close>

definition accumulation_candidate :: "'a func_graph_scheme \<Rightarrow> tensor \<Rightarrow> bool" where
  "accumulation_candidate fg out \<longleftrightarrow>
     (case fg_inputs fg of
        [] \<Rightarrow> False
      | loop_counter # _ \<Rightarrow>
          out \<noteq> loop_counter \<and> t_dtype out \<noteq> DT_RESOURCE \<and> get_accumulator fg out = Inr None)"

text \<open>How an accumulator created by lines 190-208 is wired.\<close>

definition accumulator_wiring :: "graph \<Rightarrow> tensor \<Rightarrow> tensor \<Rightarrow> tensor \<Rightarrow> tensor \<Rightarrow> bool" where
  "accumulator_wiring g tensor_list placeholder appended t \<longleftrightarrow>
     op_type (t_op tensor_list) = ''EmptyTensorList'' \<and> op_inputs (t_op tensor_list) = []
     \<and> t_graph tensor_list = g_id g \<and> g_next g \<le> op_name (t_op tensor_list)
     \<and> op_type (t_op placeholder) = ''Placeholder''
     \<and> op_type (t_op appended) = ''TensorListPushBack''
     \<and> op_inputs (t_op appended) = [placeholder, t]"

text \<open>
  An existing accumulator in the words of the docstring of \<^verbatim>\<open>_get_accumulator\<close> (lines
  477-492) and of the spec (section 4.2): a consumer of the value is a
  \<^verbatim>\<open>TensorListPushBack\<close> whose list argument is an input of the sub-program and whose
  appended list is exported as an output at the same index. The appended list is exported
  as itself when it is an output, and as its \<^verbatim>\<open>Identity\<close> when that is an output and the
  only consumer of the appended list.
\<close>

definition exported_list :: "'a func_graph_scheme \<Rightarrow> tensor \<Rightarrow> tensor option" where
  "exported_list fg output_tl =
     (if output_tl \<in> set (fg_outputs fg) then Some output_tl
      else (case consumers fg output_tl of
              [identity_op] \<Rightarrow>
                if op_type identity_op = ''Identity'' then
                  (case op_outputs identity_op of
                     [] \<Rightarrow> None
                   | out # _ \<Rightarrow> if out \<in> set (fg_outputs fg) then Some out else None)
                else None
            | _ \<Rightarrow> None))"

definition accumulates :: "'a func_graph_scheme \<Rightarrow> operation \<Rightarrow> bool" where
  "accumulates fg consumer \<longleftrightarrow>
     op_type consumer = ''TensorListPushBack''
     \<and> (case op_inputs consumer of
          [] \<Rightarrow> False
        | input_tl # _ \<Rightarrow>
            input_tl \<in> set (fg_inputs fg)
            \<and> (case op_outputs consumer of
                 [] \<Rightarrow> False
               | output_tl # _ \<Rightarrow>
                   (case exported_list fg output_tl of
                      None \<Rightarrow> False
                    | Some out \<Rightarrow>
                        index_of (fg_inputs fg) input_tl = index_of (fg_outputs fg) out)))"

definition has_accumulator :: "'a func_graph_scheme \<Rightarrow> tensor \<Rightarrow> bool" where
  "has_accumulator fg t = list_ex (accumulates fg) (consumers fg t)"

text \<open>The accumulator that lines 190-208 create for a value: exported as itself.\<close>

definition appended_to :: "'a func_graph_scheme \<Rightarrow> tensor \<Rightarrow> tensor \<Rightarrow> tensor \<Rightarrow> bool" where
  "appended_to fg u ph ap \<longleftrightarrow>
     t_op ap \<in> set (consumers fg u) \<and> op_type (t_op ap) = ''TensorListPushBack''
     \<and> op_inputs (t_op ap) = [ph, u] \<and> op_outputs (t_op ap) = [ap]
     \<and> ph \<in> set (fg_inputs fg) \<and> ap \<in> set (fg_outputs fg)
     \<and> index_of (fg_inputs fg) ph = index_of (fg_outputs fg) ap"




section \<open>The Gradient Capture Resolver\<close>

text \<open>
  \<^verbatim>\<open>_WhileBodyGradFuncGraph\<close> (lines 534-585): a sub-program with the dictionaries of
  the class, the forward body, the forward operator (\<^verbatim>\<open>_forward_graph._while\<close>) and the
  graph that encloses the forward body (\<^verbatim>\<open>_forward_graph.outer_graph\<close>).
\<close>

record grad_func_graph = func_graph +
  popped_tensor_lists :: "(tensor \<times> tensor) list"
  forward_graph :: func_graph
  forward_while :: operation
  forward_outer_graph :: nat
  indirect_captures :: "(tensor \<times> tensor) list"
  inner_to_outer_tensor :: "(tensor \<times> tensor) list"

text \<open>The loop of lines 617-620. It ends because an input is a smaller term.\<close>

fun skip_identities :: "tensor \<Rightarrow> error + tensor" where
  "skip_identities (Tensor (Operation g n ty ins outs v) i d s) =
     (if ty = ''Identity'' then
        (case ins of [] \<Rightarrow> Inl IndexError | x # _ \<Rightarrow> skip_identities x)
      else Inr (Tensor (Operation g n ty ins outs v) i d s))"

text \<open>
  Lines 635-646: the index of a resource among the inputs of the forward body, directly
  or through the nested \<^verbatim>\<open>While\<close> operator that passes it on.
\<close>

definition resource_index :: "func_graph \<Rightarrow> tensor \<Rightarrow> error + nat" where
  "resource_index fwd t =
     (case index_of (fg_inputs fwd) t of
        Some index \<Rightarrow> Inr index
      | None \<Rightarrow>
          if op_type (t_op t) = ''While'' then
            (if value_index t < length (op_inputs (t_op t)) then
               (case index_of (fg_inputs fwd) (op_inputs (t_op t) ! value_index t) of
                  Some index \<Rightarrow> Inr index
                | None \<Rightarrow> Inl NotInList)
             else Inl IndexError)
          else Inl (ResourceCreated t))"

text \<open>
  Modelled from the spec: \<^verbatim>\<open>list_ops.tensor_list_pop_back\<close> is not among the sources.
  Inside the backward body one value is popped off the accumulator (spec, section 4.4):
  the remaining list is output 0 of the operation, the popped value output 1.
\<close>

definition tensor_list_pop_back ::
  "'a graph_scheme \<Rightarrow> tensor \<Rightarrow> dtype \<Rightarrow> 'a graph_scheme \<times> tensor \<times> tensor" where
  "tensor_list_pop_back g input_handle element_dtype =
     (let (g', p) = create_op g ''TensorListPopBack'' [input_handle]
                      [variant_scalar, (element_dtype, None)]
      in (g', Tensor p 0 DT_VARIANT (Some []), Tensor p 1 element_dtype None))"

text \<open>
  \<^verbatim>\<open>_capture_helper\<close> (lines 613-682). \<open>capture_helper\<close> is the method of the base
  class. In the resource branch the source calls \<^verbatim>\<open>self.capture(..., whitelisted=True)\<close>
  on an input of the forward operator: a value of this sub-program is returned as it
  is, any other value reaches \<^verbatim>\<open>_capture_helper\<close> again and, not being a value of the
  forward body, the base method. An input of the forward operator is a value of the graph
  the operator lives in, never of its own body; the model fails where Python would
  re-enter the method on such a value.
\<close>

definition grad_capture_helper ::
  "grad_func_graph \<Rightarrow> tensor \<Rightarrow> error + grad_func_graph \<times> tensor" where
  "grad_capture_helper gg tensor0 =
     (if t_graph tensor0 \<noteq> g_id (forward_graph gg) then Inr (capture_helper gg tensor0)
      else
       (case skip_identities tensor0 of
          Inl e \<Rightarrow> Inl e
        | Inr tensor \<Rightarrow>
           (case map_of (indirect_captures gg) tensor of
              Some captured_tensor \<Rightarrow>
                (case map_of (inner_to_outer_tensor gg) tensor of
                   None \<Rightarrow> Inl AssertionFailed
                 | Some outer_tensor \<Rightarrow>
                     if outer_tensor \<notin> set (external_captures gg) then Inl AssertionFailed
                     else Inr (fst (capture_helper gg outer_tensor), captured_tensor))
            | None \<Rightarrow>
                if t_dtype tensor = DT_RESOURCE then
                  (case resource_index (forward_graph gg) tensor of
                     Inl e \<Rightarrow> Inl e
                   | Inr index \<Rightarrow>
                       if \<not> index < length (fg_outputs (forward_graph gg)) then Inl IndexError
                       else if fg_inputs (forward_graph gg) ! index
                                 \<noteq> fg_outputs (forward_graph gg) ! index
                       then Inl (NotLoopInvariant tensor)
                       else if \<not> index < length (op_inputs (forward_while gg)) then Inl IndexError
                       else
                         (let tensor_in_outer_graph = op_inputs (forward_while gg) ! index;
                              gg1 = gg\<lparr>inner_to_outer_tensor :=
                                        AList.update tensor tensor_in_outer_graph
                                          (inner_to_outer_tensor gg)\<rparr>
                          in if t_graph tensor_in_outer_graph = g_id gg1 then
                               Inr (gg1\<lparr>indirect_captures :=
                                          AList.update tensor tensor_in_outer_graph
                                            (indirect_captures gg1)\<rparr>,
                                    tensor_in_outer_graph)
                             else if t_graph tensor_in_outer_graph = g_id (forward_graph gg1)
                             then Inl AssertionFailed
                             else
                               (let (gg2, ph) = capture_helper gg1 tensor_in_outer_graph
                                in Inr (gg2\<lparr>indirect_captures :=
                                             AList.update tensor ph (indirect_captures gg2)\<rparr>,
                                        ph))))
                else if tensor \<in> fst ` set (inner_to_outer_tensor gg) then Inl AssertionFailed
                else
                  (case get_accumulator (forward_graph gg) tensor of
                     Inl e \<Rightarrow> Inl e
                   | Inr None \<Rightarrow> Inl (UnaccumulatedIntermediate tensor)
                   | Inr (Some accumulator) \<Rightarrow>
                       if t_graph accumulator \<noteq> g_id (forward_graph gg) then Inl AssertionFailed
                       else
                         (case index_of (fg_outputs (forward_graph gg)) accumulator of
                            None \<Rightarrow> Inl NotInList
                          | Some index \<Rightarrow>
                              if \<not> index < length (op_outputs (forward_while gg))
                              then Inl IndexError
                              else
                                (let accumulator' = op_outputs (forward_while gg) ! index in
                                 if t_graph accumulator' \<noteq> forward_outer_graph gg
                                 then Inl AssertionFailed
                                 else
                                   (let gg1 = gg\<lparr>inner_to_outer_tensor :=
                                                  AList.update tensor accumulator'
                                                    (inner_to_outer_tensor gg)\<rparr>;
                                        (gg2, accumulator_ph) = capture_helper gg1 accumulator';
                                        (gg3, new_tensor_list, captured_tensor) =
                                           tensor_list_pop_back gg2 accumulator_ph (t_dtype tensor)
                                    in Inr (gg3\<lparr>indirect_captures :=
                                                 AList.update tensor captured_tensor
                                                   (indirect_captures gg3),
                                               popped_tensor_lists :=
                                                 AList.update accumulator_ph new_tensor_list
                                                   (popped_tensor_lists gg3)\<rparr>,
                                            captured_tensor))))))))"

text \<open>\<^verbatim>\<open>capture\<close> (lines 587-611), followed by the method of the base class.\<close>

definition grad_capture ::
  "grad_func_graph \<Rightarrow> tensor \<Rightarrow> bool \<Rightarrow> error + grad_func_graph \<times> tensor" where
  "grad_capture gg t whitelisted =
     (if \<not> whitelisted \<and> t_graph t \<noteq> g_id gg \<and> t_graph t \<noteq> g_id (forward_graph gg)
      then Inl (NotInForwardGraph t)
      else if t_graph t \<noteq> g_id gg then grad_capture_helper gg t
      else Inr (gg, t))"

subsection \<open>The construction of a backward sub-program\<close>

text \<open>
  Modelled from the spec: the closure builder and the generic differentiator are external
  collaborators (spec, sections 1 and 6). While a sub-program is under construction the
  callable creates operations in it, and the capture hook is invoked every time it
  references a value outside its own inputs. A construction is therefore a sequence of
  steps: a reference to a value (\<^verbatim>\<open>capture\<close> with its \<^verbatim>\<open>whitelisted\<close> flag), or a new
  operation, whose inputs are captured first, in order.
\<close>

datatype build_step =
    Reference tensor bool
  | NewOperation string "tensor list" "(dtype \<times> tensor_shape) list"

fun grad_capture_all :: "grad_func_graph \<Rightarrow> tensor list \<Rightarrow> error + grad_func_graph \<times> tensor list" where
  "grad_capture_all gg [] = Inr (gg, [])"
| "grad_capture_all gg (t # ts) =
     (case grad_capture gg t False of
        Inl e \<Rightarrow> Inl e
      | Inr (gg1, t') \<Rightarrow>
          (case grad_capture_all gg1 ts of
             Inl e \<Rightarrow> Inl e
           | Inr (gg2, ts') \<Rightarrow> Inr (gg2, t' # ts')))"

fun apply_step :: "grad_func_graph \<Rightarrow> build_step \<Rightarrow> error + grad_func_graph" where
  "apply_step gg (Reference t whitelisted) =
     (case grad_capture gg t whitelisted of Inl e \<Rightarrow> Inl e | Inr (gg', _) \<Rightarrow> Inr gg')"
| "apply_step gg (NewOperation ty ins outs) =
     (case grad_capture_all gg ins of
        Inl e \<Rightarrow> Inl e
      | Inr (gg', ins') \<Rightarrow> Inr (fst (create_op gg' ty ins' outs)))"

fun build_steps :: "grad_func_graph \<Rightarrow> build_step list \<Rightarrow> error + grad_func_graph" where
  "build_steps gg [] = Inr gg"
| "build_steps gg (step # steps) =
     (case apply_step gg step of Inl e \<Rightarrow> Inl e | Inr gg' \<Rightarrow> build_steps gg' steps)"

text \<open>
  Notions used in the statements about the resolver: a cache entry for a forward value
  (\<^verbatim>\<open>_indirect_captures\<close>, \<^verbatim>\<open>_inner_to_outer_tensor\<close> and the capture of the outer value),
  and two states of one resolver (same forward body, forward operator and identity).
\<close>

definition cache_entry :: "grad_func_graph \<Rightarrow> tensor \<Rightarrow> tensor \<Rightarrow> tensor \<Rightarrow> tensor \<Rightarrow> bool" where
  "cache_entry gg u c outer ph \<longleftrightarrow>
     map_of (indirect_captures gg) u = Some c
     \<and> map_of (inner_to_outer_tensor gg) u = Some outer
     \<and> map_of (fg_captures gg) outer = Some ph"

definition same_resolver :: "grad_func_graph \<Rightarrow> grad_func_graph \<Rightarrow> bool" where
  "same_resolver gg gg' \<longleftrightarrow>
     forward_graph gg' = forward_graph gg \<and> forward_while gg' = forward_while gg
     \<and> g_id gg' = g_id gg"

section \<open>The Gradient Loop Assembler\<close>

subsection \<open>\<^verbatim>\<open>_is_tensor_array_handle\<close> (lines 53-58 and 757-772)\<close>

definition TENSOR_ARRAY_HANDLE_OPS :: "string list" where
  "TENSOR_ARRAY_HANDLE_OPS = [''TensorArrayV3'', ''TensorArrayGradV3'', ''TensorArrayGradWithShape'']"

text \<open>
  \<^verbatim>\<open>func_graph_module.maybe_captured\<close> is not among the sources and is a parameter: it
  maps a placeholder of a capture to the value it stands for.
\<close>

definition is_tensor_array_handle :: "(tensor \<Rightarrow> tensor) \<Rightarrow> tensor \<Rightarrow> error + bool" where
  "is_tensor_array_handle maybe_captured tensor =
     (if t_dtype tensor \<noteq> DT_RESOURCE then Inr False
      else
        (case (if op_type (t_op tensor) = ''While'' then
                 (if value_index tensor < length (op_inputs (t_op tensor))
                  then Inr (op_inputs (t_op tensor) ! value_index tensor)
                  else Inl IndexError)
               else Inr tensor) of
           Inl e \<Rightarrow> Inl e
         | Inr tensor' \<Rightarrow>
             Inr (op_type (t_op (maybe_captured tensor')) \<in> set TENSOR_ARRAY_HANDLE_OPS)))"

subsection \<open>\<^verbatim>\<open>_WhileGrad\<close>, lines 253-272: the incoming gradients\<close>

text \<open>Lines 258-261; \<^verbatim>\<open>zip\<close> stops at the shorter list.\<close>

fun mask_tensor_array_grads ::
  "(tensor \<Rightarrow> tensor) \<Rightarrow> tensor option list \<Rightarrow> tensor list \<Rightarrow> error + tensor option list" where
  "mask_tensor_array_grads mc (grad # grads) (out # outs) =
     (case is_tensor_array_handle mc out of
        Inl e \<Rightarrow> Inl e
      | Inr b \<Rightarrow>
          (case mask_tensor_array_grads mc grads outs of
             Inl e \<Rightarrow> Inl e
           | Inr rest \<Rightarrow> Inr ((if b then None else grad) # rest)))"
| "mask_tensor_array_grads mc _ _ = Inr []"

text \<open>
  The assertion of lines 264-267. \<^verbatim>\<open>gradients_impl.IsTrainable\<close> is not among the
  sources and is a parameter.
\<close>

definition all_trainable_have_grads ::
  "(tensor \<Rightarrow> bool) \<Rightarrow> tensor list \<Rightarrow> tensor option list \<Rightarrow> bool" where
  "all_trainable_have_grads is_trainable outs grads =
     list_all (\<lambda>(out, g). g \<noteq> None \<or> t_dtype out = DT_RESOURCE \<or> \<not> is_trainable out)
       (zip outs grads)"

text \<open>Lines 271-272: the triples with a gradient; unpacking an empty list raises.\<close>

definition select_non_none ::
  "tensor list \<Rightarrow> tensor list \<Rightarrow> tensor option list
     \<Rightarrow> error + tensor list \<times> tensor list \<times> tensor list" where
  "select_non_none body_outputs body_inputs grads =
     (let triples = filter (\<lambda>(y, x, grad). grad \<noteq> None) (zip body_outputs (zip body_inputs grads))
      in if triples = [] then Inl UnpackError
         else Inr (map (\<lambda>(y, x, grad). y) triples, map (\<lambda>(y, x, grad). x) triples,
                   map (\<lambda>(y, x, grad). the grad) triples))"

subsection \<open>\<^verbatim>\<open>_create_grad_func\<close> (lines 355-398)\<close>

text \<open>The loop of lines 387-396 over the internal captures of the backward body.\<close>

fun add_popped_outputs :: "grad_func_graph \<Rightarrow> tensor list \<Rightarrow> error + grad_func_graph" where
  "add_popped_outputs gg [] = Inr gg"
| "add_popped_outputs gg (internal_capture # rest) =
     (case map_of (popped_tensor_lists gg) internal_capture of
        Some popped \<Rightarrow> add_popped_outputs (gg\<lparr>fg_outputs := fg_outputs gg @ [popped]\<rparr>) rest
      | None \<Rightarrow>
          if t_dtype internal_capture = DT_RESOURCE
          then add_popped_outputs (gg\<lparr>fg_outputs := fg_outputs gg @ [internal_capture]\<rparr>) rest
          else Inl (InternalCaptureError internal_capture))"

text \<open>
  The closure builder applied to \<^verbatim>\<open>_grad_fn\<close> with the capture resolver installed is the
  parameter \<open>build_grad\<close>; it receives \<open>ys\<close>, \<open>xs\<close> and the arguments. The counter is a
  new constant of the current graph, the total number of iterations is output 0 of the
  forward operator.
\<close>

definition create_grad_func ::
  "(tensor list \<Rightarrow> tensor list \<Rightarrow> tensor list \<Rightarrow> error + grad_func_graph)
   \<Rightarrow> graph \<Rightarrow> tensor list \<Rightarrow> tensor list \<Rightarrow> tensor list \<Rightarrow> operation
   \<Rightarrow> error + graph \<times> grad_func_graph \<times> tensor list" where
  "create_grad_func build_grad g ys xs grads while_op =
     (if length ys \<noteq> length grads then Inl AssertionFailed
      else
        (let (g1, counter) = constant_op g 0
         in case op_outputs while_op of
              [] \<Rightarrow> Inl IndexError
            | total_iters # _ \<Rightarrow>
                (let args = [counter, total_iters] @ grads in
                 case build_grad ys xs args of
                   Inl e \<Rightarrow> Inl e
                 | Inr grad_func_graph \<Rightarrow>
                     (case add_popped_outputs grad_func_graph (internal_captures grad_func_graph) of
                        Inl e \<Rightarrow> Inl e
                      | Inr grad_func_graph' \<Rightarrow> Inr (g1, grad_func_graph', args)))))"

subsection \<open>\<^verbatim>\<open>_WhileGrad\<close>, lines 278-290: accumulators of the backward body\<close>

text \<open>
  The empty list is an operation of the enclosing graph; it is captured with
  \<^verbatim>\<open>whitelisted=True\<close>. The append reads the placeholder and the intermediate value,
  both values of the backward body, so creating it captures nothing.
\<close>

definition grad_accumulate_step ::
  "graph \<times> grad_func_graph \<Rightarrow> tensor \<Rightarrow> error + graph \<times> grad_func_graph" where
  "grad_accumulate_step s intermediate_tensor =
     (let (g, gg) = s; (g', tensor_list) = empty_tensor_list g in
      case grad_capture gg tensor_list True of
        Inl e \<Rightarrow> Inl e
      | Inr (gg1, tensor_list_ph) \<Rightarrow>
          (let (gg2, p) = create_op gg1 ''TensorListPushBack''
                            [tensor_list_ph, intermediate_tensor] [variant_scalar];
               appended_tensor_list = Tensor p 0 DT_VARIANT (Some [])
           in Inr (g', gg2\<lparr>fg_outputs := fg_outputs gg2 @ [appended_tensor_list]\<rparr>)))"

fun grad_accumulate_all ::
  "graph \<times> grad_func_graph \<Rightarrow> tensor list \<Rightarrow> error + graph \<times> grad_func_graph" where
  "grad_accumulate_all s [] = Inr s"
| "grad_accumulate_all s (t # ts) =
     (case grad_accumulate_step s t of
        Inl e \<Rightarrow> Inl e
      | Inr s' \<Rightarrow> grad_accumulate_all s' ts)"

subsection \<open>\<^verbatim>\<open>_WhileGrad\<close>, lines 292-299: the backward condition\<close>

text \<open>
  Modelled from the spec: the closure builder (spec, section 6) applied to \<^verbatim>\<open>grad_cond\<close>
  of lines 292-293. It makes one input placeholder per loop-carried value and calls the
  function on them; the function returns the comparison of the first two and ignores the
  rest. Calling it with fewer than two arguments raises.
\<close>

fun placeholders :: "func_graph \<Rightarrow> tensor list \<Rightarrow> func_graph" where
  "placeholders fg [] = fg"
| "placeholders fg (t # ts) =
     (let (fg', p) = create_op fg ''Placeholder'' [] [(t_dtype t, t_shape t)]
      in placeholders (fg'\<lparr>fg_inputs := fg_inputs fg' @ [Tensor p 0 (t_dtype t) (t_shape t)]\<rparr>) ts)"

definition build_grad_cond :: "nat \<Rightarrow> tensor list \<Rightarrow> error + func_graph" where
  "build_grad_cond gid grad_loop_vars =
     (let fg = placeholders \<lparr>g_id = gid, g_operations = [], g_next = 0,
                             fg_inputs = [], fg_outputs = [], fg_captures = []\<rparr> grad_loop_vars
      in case fg_inputs fg of
           counter # max_iters # unused_args \<Rightarrow>
             (let (fg', p) = create_op fg ''Less'' [counter, max_iters] [(DT_BOOL, Some [])]
              in Inr (fg'\<lparr>fg_outputs := [Tensor p 0 DT_BOOL (Some [])]\<rparr>))
         | _ \<Rightarrow> Inl AssertionFailed)"

subsection \<open>\<^verbatim>\<open>_WhileGrad\<close>, lines 313-325: padding with \<^verbatim>\<open>None\<close>\<close>

fun none_pad :: "tensor option list \<Rightarrow> tensor list \<Rightarrow> nat \<Rightarrow> error + tensor option list" where
  "none_pad [] outputs index = Inr []"
| "none_pad (None # grads) outputs index =
     (case none_pad grads outputs index of
        Inl e \<Rightarrow> Inl e
      | Inr rest \<Rightarrow> Inr (None # rest))"
| "none_pad (Some g # grads) outputs index =
     (if index < length outputs then
        (case none_pad grads outputs (index + 1) of
           Inl e \<Rightarrow> Inl e
         | Inr rest \<Rightarrow> Inr (Some (outputs ! index) # rest))
      else Inl IndexError)"

subsection \<open>\<^verbatim>\<open>_WhileGrad\<close> (lines 248-325)\<close>

text \<open>
  What the gradient assembler builds: the enclosing graph with the backward operator,
  the two backward sub-programs, the loop-carried inputs and the outputs of the backward
  operator, and the gradients it returns.
\<close>

record while_grad_result =
  wg_graph :: graph
  wg_cond_graph :: func_graph
  wg_body_graph :: grad_func_graph
  wg_loop_vars :: "tensor list"
  wg_outputs :: "tensor list"
  wg_grads :: "tensor option list"

text \<open>
  \<open>body_graph\<close> is the forward body as \<^verbatim>\<open>_get_body_graph\<close> rebuilds it; \<open>cond_id\<close>
  is the identity of the new backward condition.
\<close>

definition WhileGrad ::
  "(tensor \<Rightarrow> tensor) \<Rightarrow> (tensor \<Rightarrow> bool)
   \<Rightarrow> (tensor list \<Rightarrow> tensor list \<Rightarrow> tensor list \<Rightarrow> error + grad_func_graph)
   \<Rightarrow> nat \<Rightarrow> graph \<Rightarrow> func_graph \<Rightarrow> operation \<Rightarrow> tensor option list
   \<Rightarrow> error + while_grad_result" where
  "WhileGrad maybe_captured is_trainable build_grad cond_id g body_g while_op grads0 =
     (case mask_tensor_array_grads maybe_captured grads0 (op_outputs while_op) of
        Inl e \<Rightarrow> Inl e
      | Inr grads \<Rightarrow>
          if \<not> all_trainable_have_grads is_trainable (op_outputs while_op) grads
          then Inl MissingGradient
          else
            (case select_non_none (fg_outputs body_g) (fg_inputs body_g) grads of
               Inl e \<Rightarrow> Inl e
             | Inr (ys, xs, non_none_grads) \<Rightarrow>
                 (case create_grad_func build_grad g ys xs non_none_grads while_op of
                    Inl e \<Rightarrow> Inl e
                  | Inr (g1, body_grad_graph, args) \<Rightarrow>
                      (case get_intermediates body_grad_graph of
                         Inl e \<Rightarrow> Inl e
                       | Inr intermediate_tensors \<Rightarrow>
                           (case grad_accumulate_all (g1, body_grad_graph) intermediate_tensors of
                              Inl e \<Rightarrow> Inl e
                            | Inr (g2, body_grad_graph') \<Rightarrow>
                                (let grad_loop_vars = args @ external_captures body_grad_graph' in
                                 case build_grad_cond cond_id grad_loop_vars of
                                   Inl e \<Rightarrow> Inl e
                                 | Inr cond_grad_graph \<Rightarrow>
                                     (case check_num_inputs_outputs cond_grad_graph
                                             body_grad_graph' (length grad_loop_vars) of
                                        Inl e \<Rightarrow> Inl e
                                      | Inr _ \<Rightarrow>
                                          (let (g3, outputs) =
                                                 emit_while g2 grad_loop_vars
                                                   (map t_shape (fg_outputs body_grad_graph'))
                                           in case none_pad grads outputs 2 of
                                                Inl e \<Rightarrow> Inl e
                                              | Inr none_padded_outputs \<Rightarrow>
                                                  Inr \<lparr>wg_graph = g3,
                                                       wg_cond_graph = cond_grad_graph,
                                                       wg_body_graph = body_grad_graph',
                                                       wg_loop_vars = grad_loop_vars,
                                                       wg_outputs = outputs,
                                                       wg_grads = none_padded_outputs\<rparr>))))))))"

section \<open>Running a loop operator\<close>






text \<open>
  The inputs of the forward operator are values of neither the backward body nor the
  forward body: the operator lives in the graph that encloses both.
\<close>

definition forward_inputs_outside :: "grad_func_graph \<Rightarrow> bool" where
  "forward_inputs_outside gg \<longleftrightarrow>
     (\<forall>t \<in> set (op_inputs (forward_while gg)).
        t_graph t \<noteq> g_id gg \<and> t_graph t \<noteq> g_id (forward_graph gg))"

section \<open>Concrete instances\<close>

text \<open>Small graphs on which the definitions are evaluated.\<close>

definition scalar_shape :: tensor_shape where
  "scalar_shape = Some []"

definition outer_const :: "nat \<Rightarrow> tensor" where
  "outer_const n =
     Tensor (Operation 0 n ''Const'' [] [(DT_FLOAT, scalar_shape)] None) 0 DT_FLOAT scalar_shape"

definition ex_ta :: tensor_array where
  "ex_ta = \<lparr>ta_dtype = DT_FLOAT,
     ta_handle = Tensor (Operation 0 7 ''TensorArrayV3'' [outer_const 6]
                   [(DT_RESOURCE, scalar_shape), (DT_FLOAT, scalar_shape)] None) 0 DT_RESOURCE scalar_shape,
     ta_flow = Tensor (Operation 0 7 ''TensorArrayV3'' [outer_const 6]
                   [(DT_RESOURCE, scalar_shape), (DT_FLOAT, scalar_shape)] None) 1 DT_FLOAT scalar_shape,
     ta_infer_shape = True, ta_colocate_with_first_write_call = True,
     ta_colocate_with = [], ta_element_shape = None\<rparr>"




text \<open>
  The loop \<open>x \<rightarrow> x * x\<close> with condition \<open>x < k\<close>: graph 0 is the enclosing graph, graph 1
  the condition, graph 2 the body.
\<close>

definition float_scalar :: "dtype \<times> tensor_shape" where
  "float_scalar = (DT_FLOAT, Some [])"

definition float_tensor :: "nat \<Rightarrow> nat \<Rightarrow> string \<Rightarrow> tensor list \<Rightarrow> tensor" where
  "float_tensor g n ty ins = Tensor (Operation g n ty ins [float_scalar] None) 0 DT_FLOAT (Some [])"

definition ex_c :: tensor where "ex_c = float_tensor 2 0 ''Placeholder'' []"
definition ex_x :: tensor where "ex_x = float_tensor 2 1 ''Placeholder'' []"
definition ex_one :: tensor where "ex_one = float_tensor 2 2 ''Const'' []"
definition ex_c1 :: tensor where "ex_c1 = float_tensor 2 3 ''Add'' [ex_c, ex_one]"
definition ex_y :: tensor where "ex_y = float_tensor 2 4 ''Mul'' [ex_x, ex_x]"

definition ex_body :: func_graph where
  "ex_body = \<lparr>g_id = 2, g_operations = map t_op [ex_c, ex_x, ex_one, ex_c1, ex_y], g_next = 5,
      fg_inputs = [ex_c, ex_x], fg_outputs = [ex_c1, ex_y], fg_captures = []\<rparr>"

definition ex_less :: tensor where
  "ex_less = Tensor (Operation 1 3 ''Less''
       [float_tensor 1 1 ''Placeholder'' [], float_tensor 1 2 ''Const'' []] [(DT_BOOL, Some [])] None)
     0 DT_BOOL (Some [])"

definition ex_cond :: func_graph where
  "ex_cond = \<lparr>g_id = 1,
      g_operations = map t_op [float_tensor 1 0 ''Placeholder'' [], float_tensor 1 1 ''Placeholder'' [],
                               float_tensor 1 2 ''Const'' [], ex_less],
      g_next = 4,
      fg_inputs = [float_tensor 1 0 ''Placeholder'' [], float_tensor 1 1 ''Placeholder'' []],
      fg_outputs = [ex_less], fg_captures = []\<rparr>"

definition ex_outer :: graph where
  "ex_outer = \<lparr>g_id = 0, g_operations = map t_op [outer_const 0, outer_const 1], g_next = 2\<rparr>"

definition ex_assembly :: assembly where
  "ex_assembly = \<lparr>outer_graph = ex_outer, loop_vars = [Leaf (outer_const 0), Leaf (outer_const 1)],
      cond_graph = ex_cond, body_graph = ex_body\<rparr>"

text \<open>What the Accumulation Manager selects in that body, and the body after one run.\<close>

definition ex_intermediates :: "tensor list" where
  "ex_intermediates = [ex_x, ex_one, ex_c1, ex_y]"

definition ex_accumulated :: assembly where
  "ex_accumulated = accumulate_all ex_assembly ex_intermediates"

text \<open>
  The append that accumulates \<open>t\<close>, when its placeholder has the name \<open>n\<close>, and what a
  second run of the manager selects: the appended lists of the first run.
\<close>

definition ex_push :: "nat \<Rightarrow> tensor \<Rightarrow> tensor" where
  "ex_push n t =
     Tensor (Operation 2 (Suc n) ''TensorListPushBack''
               [Tensor (Operation 2 n ''Placeholder'' [] [variant_scalar] None) 0 DT_VARIANT (Some []), t]
               [variant_scalar] None) 0 DT_VARIANT (Some [])"

definition ex_intermediates2 :: "tensor list" where
  "ex_intermediates2 = [ex_push 5 ex_x, ex_push 7 ex_one, ex_push 9 ex_c1, ex_push 11 ex_y]"

definition ex_accumulated_twice :: assembly where
  "ex_accumulated_twice = accumulate_all ex_accumulated ex_intermediates2"

text \<open>A condition and a body that both read the enclosing value \<open>outer_const 5\<close>.\<close>

definition ex_cond_capturing :: func_graph where
  "ex_cond_capturing =
     ex_cond\<lparr>g_operations := g_operations ex_cond @ [t_op (float_tensor 1 4 ''Placeholder'' [])],
             g_next := 5,
             fg_inputs := fg_inputs ex_cond @ [float_tensor 1 4 ''Placeholder'' []],
             fg_captures := [(outer_const 5, float_tensor 1 4 ''Placeholder'' [])]\<rparr>"

definition ex_body_capturing :: func_graph where
  "ex_body_capturing =
     ex_body\<lparr>g_operations := g_operations ex_body @ [t_op (float_tensor 2 5 ''Placeholder'' [])],
             g_next := 6,
             fg_inputs := fg_inputs ex_body @ [float_tensor 2 5 ''Placeholder'' []],
             fg_captures := [(outer_const 5, float_tensor 2 5 ''Placeholder'' [])]\<rparr>"

definition ex_assembly_shared :: assembly where
  "ex_assembly_shared = \<lparr>outer_graph = ex_outer,
      loop_vars = [Leaf (outer_const 0), Leaf (outer_const 1), Leaf (outer_const 5)],
      cond_graph = ex_cond_capturing, body_graph = ex_body_capturing\<rparr>"

text \<open>
  A forward operator whose third loop-carried value is the handle of a TensorArray, its
  body, and a backward body as the closure builder could return it.
\<close>

definition ex_handle :: tensor where
  "ex_handle = ta_handle ex_ta"

definition ex_handle_ph :: tensor where
  "ex_handle_ph =
     Tensor (Operation 2 5 ''Placeholder'' [] [(DT_RESOURCE, Some [])] None) 0 DT_RESOURCE (Some [])"

definition ex_body_ta :: func_graph where
  "ex_body_ta = \<lparr>g_id = 2,
      g_operations = map t_op [ex_c, ex_x, ex_one, ex_c1, ex_y, ex_handle_ph], g_next = 6,
      fg_inputs = [ex_c, ex_x, ex_handle_ph], fg_outputs = [ex_c1, ex_y, ex_handle_ph],
      fg_captures = [(ex_handle, ex_handle_ph)]\<rparr>"

definition ex_while :: operation where
  "ex_while = Operation 0 8 ''While'' [outer_const 0, outer_const 1, ex_handle]
     [float_scalar, float_scalar, (DT_RESOURCE, Some [])] None"

definition ex_grad_outer :: graph where
  "ex_grad_outer = \<lparr>g_id = 0,
      g_operations = map t_op [outer_const 0, outer_const 1, outer_const 2, outer_const 3,
                               outer_const 4, outer_const 6, ex_handle] @ [ex_while],
      g_next = 9\<rparr>"

definition ex_grad_body :: grad_func_graph where
  "ex_grad_body =
     \<lparr>g_id = 3,
      g_operations = map t_op
        [float_tensor 3 0 ''Placeholder'' [], float_tensor 3 1 ''Placeholder'' [],
         float_tensor 3 2 ''Placeholder'' [], float_tensor 3 3 ''Placeholder'' [],
         float_tensor 3 4 ''Const'' [],
         float_tensor 3 5 ''Add'' [float_tensor 3 0 ''Placeholder'' [], float_tensor 3 4 ''Const'' []]],
      g_next = 6,
      fg_inputs = [float_tensor 3 0 ''Placeholder'' [], float_tensor 3 1 ''Placeholder'' [],
                   float_tensor 3 2 ''Placeholder'' [], float_tensor 3 3 ''Placeholder'' []],
      fg_outputs = [float_tensor 3 5 ''Add'' [float_tensor 3 0 ''Placeholder'' [], float_tensor 3 4 ''Const'' []],
                    float_tensor 3 1 ''Placeholder'' [],
                    float_tensor 3 2 ''Placeholder'' [], float_tensor 3 3 ''Placeholder'' []],
      fg_captures = [],
      popped_tensor_lists = [], forward_graph = ex_body_ta, forward_while = ex_while,
      forward_outer_graph = 0, indirect_captures = [], inner_to_outer_tensor = []\<rparr>"

definition ex_build_grad ::
  "tensor list \<Rightarrow> tensor list \<Rightarrow> tensor list \<Rightarrow> error + grad_func_graph" where
  "ex_build_grad ys xs args = Inr ex_grad_body"

definition ex_is_trainable :: "tensor \<Rightarrow> bool" where
  "ex_is_trainable t = (t_dtype t = DT_FLOAT)"

definition ex_maybe_captured :: "tensor \<Rightarrow> tensor" where
  "ex_maybe_captured t = t"

definition ex_incoming_grads :: "tensor option list" where
  "ex_incoming_grads = [Some (outer_const 2), Some (outer_const 3), Some (outer_const 4)]"

definition ex_while_grad :: "error + while_grad_result" where
  "ex_while_grad =
     WhileGrad ex_maybe_captured ex_is_trainable ex_build_grad 4 ex_grad_outer ex_body_ta
       ex_while ex_incoming_grads"

text \<open>
  An empty backward body for a given forward body and operator; a forward body with a
  nested \<^verbatim>\<open>While\<close> operator that passes the resource on; and the forward operator of the
  accumulated body above.
\<close>

definition ex_grad_graph_for :: "func_graph \<Rightarrow> operation \<Rightarrow> grad_func_graph" where
  "ex_grad_graph_for fwd w =
     \<lparr>g_id = 3, g_operations = [], g_next = 0, fg_inputs = [], fg_outputs = [],
      fg_captures = [], popped_tensor_lists = [], forward_graph = fwd, forward_while = w,
      forward_outer_graph = 0, indirect_captures = [], inner_to_outer_tensor = []\<rparr>"

definition ex_nested_while :: operation where
  "ex_nested_while = Operation 2 6 ''While'' [ex_x, ex_handle_ph]
     [float_scalar, (DT_RESOURCE, Some [])] None"

definition ex_nested_resource :: tensor where
  "ex_nested_resource = Tensor ex_nested_while 1 DT_RESOURCE (Some [])"

definition ex_body_nested :: func_graph where
  "ex_body_nested = ex_body_ta\<lparr>g_operations := g_operations ex_body_ta @ [ex_nested_while],
                               g_next := 7\<rparr>"

definition ex_resource_ph :: tensor where
  "ex_resource_ph =
     Tensor (Operation 3 0 ''Placeholder'' [] [(DT_RESOURCE, Some [])] None) 0 DT_RESOURCE (Some [])"

definition ex_while6 :: operation where
  "ex_while6 = Operation 0 8 ''While'' (flatten (Seq (loop_vars ex_accumulated)))
     [float_scalar, float_scalar, variant_scalar, variant_scalar, variant_scalar, variant_scalar] None"



text \<open>
  A resolver for the accumulated body, the state after it has resolved \<open>ex_y\<close>, the
  value it popped, and the result of the gradient assembler on the operator with the
  TensorArray handle.
\<close>

definition ex_resolver :: grad_func_graph where
  "ex_resolver = ex_grad_graph_for (body_graph ex_accumulated) ex_while6"

definition ex_resolved :: "grad_func_graph \<times> tensor" where
  "ex_resolved = projr (grad_capture_helper ex_resolver ex_y)"

definition ex_popped :: tensor where
  "ex_popped =
     Tensor (Operation 3 1 ''TensorListPopBack''
               [Tensor (Operation 3 0 ''Placeholder'' [] [variant_scalar] None) 0 DT_VARIANT (Some [])]
               [variant_scalar, (DT_FLOAT, None)] None) 1 DT_FLOAT None"

definition ex_while_grad_result :: while_grad_result where
  "ex_while_grad_result = projr ex_while_grad"

text \<open>
  Construction steps after \<open>ex_y\<close> has been resolved: another forward value is referenced,
  an operation that reads \<open>ex_y\<close> again is created, and \<open>ex_y\<close> is referenced once more.
\<close>

definition ex_later_steps :: "build_step list" where
  "ex_later_steps = [Reference ex_c1 False, NewOperation ''Mul'' [ex_y, ex_x] [float_scalar],
                     Reference ex_y False]"

definition ex_resolved_later :: grad_func_graph where
  "ex_resolved_later = projr (build_steps (fst ex_resolved) ex_later_steps)"

text \<open>
  Bodies that append to a list given as a loop variable. In the first the appended list is
  dropped: \<^verbatim>\<open>body(x, tl)\<close> computes \<^verbatim>\<open>y = x * x\<close>, calls
  \<^verbatim>\<open>tensor_list_push_back(tl, y)\<close> and returns \<^verbatim>\<open>(y, tl)\<close>. In the second the length of
  the appended list is read before the list is returned through an \<^verbatim>\<open>Identity\<close>. In the
  third the appended list is only returned through an \<^verbatim>\<open>Identity\<close>.
\<close>

definition variant_tensor :: "nat \<Rightarrow> nat \<Rightarrow> string \<Rightarrow> tensor list \<Rightarrow> tensor" where
  "variant_tensor g n ty ins = Tensor (Operation g n ty ins [variant_scalar] None) 0 DT_VARIANT (Some [])"

definition ex_list :: tensor where "ex_list = variant_tensor 2 2 ''Placeholder'' []"
definition ex_sq :: tensor where "ex_sq = float_tensor 2 3 ''Mul'' [ex_x, ex_x]"
definition ex_appended :: tensor where
  "ex_appended = variant_tensor 2 4 ''TensorListPushBack'' [ex_list, ex_sq]"

definition ex_one_at :: "nat \<Rightarrow> tensor" where
  "ex_one_at n = Tensor (Operation 2 n ''Const'' [] [float_scalar] (Some 1)) 0 DT_FLOAT (Some [])"

definition ex_body_dropped_append :: func_graph where
  "ex_body_dropped_append = \<lparr>g_id = 2,
      g_operations = map t_op [ex_c, ex_x, ex_list, ex_sq, ex_appended, ex_one_at 5,
                               float_tensor 2 6 ''Add'' [ex_c, ex_one_at 5]],
      g_next = 7,
      fg_inputs = [ex_c, ex_x, ex_list],
      fg_outputs = [float_tensor 2 6 ''Add'' [ex_c, ex_one_at 5], ex_sq, ex_list],
      fg_captures = []\<rparr>"

definition ex_length :: tensor where
  "ex_length = Tensor (Operation 2 5 ''TensorListLength'' [ex_appended] [(DT_INT32, Some [])] None)
                 0 DT_INT32 (Some [])"

definition ex_returned :: "nat \<Rightarrow> tensor" where
  "ex_returned n = variant_tensor 2 n ''Identity'' [ex_appended]"

definition ex_body_identity_second :: func_graph where
  "ex_body_identity_second = \<lparr>g_id = 2,
      g_operations = map t_op [ex_c, ex_x, ex_list, ex_sq, ex_appended, ex_length, ex_one_at 6,
                               float_tensor 2 7 ''Add'' [ex_c, ex_one_at 6], ex_returned 8],
      g_next = 9,
      fg_inputs = [ex_c, ex_x, ex_list],
      fg_outputs = [float_tensor 2 7 ''Add'' [ex_c, ex_one_at 6], ex_sq, ex_returned 8],
      fg_captures = []\<rparr>"

definition ex_body_identity :: func_graph where
  "ex_body_identity = \<lparr>g_id = 2,
      g_operations = map t_op [ex_c, ex_x, ex_list, ex_sq, ex_appended, ex_one_at 5,
                               float_tensor 2 6 ''Add'' [ex_c, ex_one_at 5], ex_returned 7],
      g_next = 8,
      fg_inputs = [ex_c, ex_x, ex_list],
      fg_outputs = [float_tensor 2 6 ''Add'' [ex_c, ex_one_at 5], ex_sq, ex_returned 7],
      fg_captures = []\<rparr>"

definition ex_outer_list :: tensor where
  "ex_outer_list = Tensor (Operation 0 2 ''EmptyTensorList'' [] [variant_scalar] None) 0 DT_VARIANT (Some [])"

definition ex_cond3 :: func_graph where
  "ex_cond3 = ex_cond\<lparr>g_operations := g_operations ex_cond @ [t_op (variant_tensor 1 4 ''Placeholder'' [])],
                     g_next := 5,
                     fg_inputs := fg_inputs ex_cond @ [variant_tensor 1 4 ''Placeholder'' []]\<rparr>"

definition ex_assembly_with_list :: "func_graph \<Rightarrow> assembly" where
  "ex_assembly_with_list body =
     \<lparr>outer_graph = \<lparr>g_id = 0, g_operations = map t_op [outer_const 0, outer_const 1, ex_outer_list],
                      g_next = 3\<rparr>,
      loop_vars = [Leaf (outer_const 0), Leaf (outer_const 1), Leaf ex_outer_list],
      cond_graph = ex_cond3, body_graph = body\<rparr>"


definition ex_loop_vars_with_list :: "loop_val nest list" where
  "ex_loop_vars_with_list = [Leaf (LTensor (outer_const 1)), Leaf (LTensor ex_outer_list)]"

definition ex_outer_with_list :: graph where
  "ex_outer_with_list = \<lparr>g_id = 0, g_operations = map t_op [outer_const 1, ex_outer_list], g_next = 3\<rparr>"

definition ex_accumulated_twice_for_sq :: assembly where
  "ex_accumulated_twice_for_sq =
     projr (accumulation_manager (ex_assembly_with_list ex_body_identity_second))"

definition ex_intermediates_identity :: "tensor list" where
  "ex_intermediates_identity =
     [ex_x, ex_appended, ex_one_at 5, float_tensor 2 6 ''Add'' [ex_c, ex_one_at 5]]"

section \<open>Auxiliary lemmas\<close>

subsection \<open>Nested structures\<close>







subsection \<open>Flow handles\<close>





subsection \<open>Captures\<close>

lemma external_captures_capture_helper:
  "external_captures (fst (capture_helper fg t)) =
     (if t \<in> set (external_captures fg) then external_captures fg else external_captures fg @ [t])"
proof (cases "map_of (fg_captures fg) t")
  case None
  then have "t \<notin> set (external_captures fg)"
    by (simp add: external_captures_def map_of_eq_None_iff)
  with None show ?thesis
    by (simp add: capture_helper_def create_op_def external_captures_def Let_def)
next
  case (Some a)
  then have "t \<in> set (external_captures fg)"
    by (auto simp: external_captures_def dest: map_of_SomeD intro: rev_image_eqI)
  with Some show ?thesis by (simp add: capture_helper_def)
qed

lemma external_captures_capture_subset:
  "set (external_captures fg) \<subseteq> set (external_captures (fst (capture fg t)))"
  "set (external_captures (fst (capture fg t))) \<subseteq> insert t (set (external_captures fg))"
  by (auto simp: capture_def external_captures_capture_helper)

lemma reconcile_captures_shared:
  "t \<in> set caps \<Longrightarrow> t \<in> set (external_captures cond) \<Longrightarrow> distinct caps \<Longrightarrow>
     \<exists>t'. reconcile_captures cond caps = Inl (CaptureAmbiguity t')
        \<and> t' \<in> set caps \<and> t' \<in> set (external_captures cond)"
proof (induction caps arbitrary: cond)
  case Nil
  then show ?case by simp
next
  case (Cons ec rest)
  show ?case
  proof (cases "ec \<in> set (external_captures cond)")
    case True
    then show ?thesis by simp
  next
    case False
    let ?cond' = "fst (capture cond ec)"
    from False Cons.prems have t: "t \<in> set rest" by auto
    from Cons.prems external_captures_capture_subset(1)[of cond ec]
    have "t \<in> set (external_captures ?cond')" by auto
    from Cons.IH[OF t this] Cons.prems obtain t' where
      t': "reconcile_captures ?cond' rest = Inl (CaptureAmbiguity t')" "t' \<in> set rest"
          "t' \<in> set (external_captures ?cond')" by auto
    from t'(2) Cons.prems have "t' \<noteq> ec" by auto
    with t'(3) external_captures_capture_subset(2)[of cond ec]
    have "t' \<in> set (external_captures cond)" by auto
    with t' False show ?thesis by simp
  qed
qed

subsection \<open>Shape validation\<close>




lemma shape_less_than_or_equal_refl: "shape_less_than_or_equal s s"
  by (auto simp: shape_less_than_or_equal_def list_all2_same split: option.splits)

subsection \<open>One accumulation step\<close>

lemma map_of_None_external: "map_of (fg_captures fg) t = None \<longleftrightarrow> t \<notin> set (external_captures fg)"
  by (simp add: external_captures_def map_of_eq_None_iff)

lemma capture_fresh:
  assumes "t_graph t \<noteq> g_id fg" and "t \<notin> set (external_captures fg)"
  shows "capture fg t =
     (fg\<lparr>g_operations := g_operations fg @ [t_op (new_placeholder fg t)],
         g_next := Suc (g_next fg),
         fg_captures := fg_captures fg @ [(t, new_placeholder fg t)],
         fg_inputs := fg_inputs fg @ [new_placeholder fg t]\<rparr>, new_placeholder fg t)"
  using assms
  by (simp add: capture_def capture_helper_def create_op_def new_placeholder_def Let_def
      map_of_None_external[symmetric])

lemma new_tensor_list_graph [simp]: "t_graph (new_tensor_list g) = g_id g"
  by (simp add: new_tensor_list_def t_graph_def)

lemma empty_tensor_list_eq:
  "empty_tensor_list g =
     (g\<lparr>g_operations := g_operations g @ [t_op (new_tensor_list g)], g_next := Suc (g_next g)\<rparr>,
      new_tensor_list g)"
  by (simp add: empty_tensor_list_def create_op_def new_tensor_list_def Let_def)

lemma new_tensor_list_not_known: "\<not> known_in g (new_tensor_list g)"
  by (simp add: known_in_def new_tensor_list_def t_graph_def)

lemma capture_same_graph: "t_graph t = g_id fg \<Longrightarrow> capture fg t = (fg, t)"
  by (simp add: capture_def)

lemma tensor_list_push_back_fresh:
  assumes "t_graph tlist \<noteq> g_id fg" and "tlist \<notin> set (external_captures fg)" and "t_graph t = g_id fg"
  shows "tensor_list_push_back fg tlist t =
     (fg\<lparr>g_operations := g_operations fg @ [t_op (new_placeholder fg tlist), t_op (new_push_back fg tlist t)],
         g_next := Suc (Suc (g_next fg)),
         fg_captures := fg_captures fg @ [(tlist, new_placeholder fg tlist)],
         fg_inputs := fg_inputs fg @ [new_placeholder fg tlist]\<rparr>, new_push_back fg tlist t)"
proof -
  obtain fg1 where fg1: "capture fg tlist = (fg1, new_placeholder fg tlist)"
    and fg1_eq: "fg1 = fg\<lparr>g_operations := g_operations fg @ [t_op (new_placeholder fg tlist)],
         g_next := Suc (g_next fg),
         fg_captures := fg_captures fg @ [(tlist, new_placeholder fg tlist)],
         fg_inputs := fg_inputs fg @ [new_placeholder fg tlist]\<rparr>"
    using capture_fresh[OF assms(1,2)] by simp
  have "t_graph t = g_id fg1" using assms(3) fg1_eq by simp
  then have c2: "capture fg1 t = (fg1, t)" by (rule capture_same_graph)
  have "capture_all fg [tlist, t] = (fg1, [new_placeholder fg tlist, t])"
    by (simp add: fg1 c2)
  then show ?thesis
    by (simp add: tensor_list_push_back_def fg_create_op_def create_op_def new_push_back_def fg1_eq Let_def)
qed

lemma accumulate_step_eq:
  assumes "wf_assembly st" and "t_graph t = g_id (body_graph st)"
  shows "accumulate_step st t =
     (let tlist = new_tensor_list (outer_graph st); body = body_graph st; cond = cond_graph st in
      \<lparr>outer_graph = (outer_graph st)\<lparr>g_operations := g_operations (outer_graph st) @ [t_op tlist],
                                      g_next := Suc (g_next (outer_graph st))\<rparr>,
       loop_vars = loop_vars st @ [Leaf tlist],
       cond_graph = cond\<lparr>g_operations := g_operations cond @ [t_op (new_placeholder cond tlist)],
         g_next := Suc (g_next cond),
         fg_captures := fg_captures cond @ [(tlist, new_placeholder cond tlist)],
         fg_inputs := fg_inputs cond @ [new_placeholder cond tlist]\<rparr>,
       body_graph = body\<lparr>g_operations := g_operations body @ [t_op (new_placeholder body tlist), t_op (new_push_back body tlist t)],
         g_next := Suc (Suc (g_next body)),
         fg_captures := fg_captures body @ [(tlist, new_placeholder body tlist)],
         fg_inputs := fg_inputs body @ [new_placeholder body tlist],
         fg_outputs := fg_outputs body @ [new_push_back body tlist t]\<rparr>\<rparr>)"
proof -
  let ?tlist = "new_tensor_list (outer_graph st)"
  from assms(1) have a: "t_graph ?tlist \<noteq> g_id (body_graph st)" "t_graph ?tlist \<noteq> g_id (cond_graph st)"
    by (simp_all add: wf_assembly_def)
  from assms(1) new_tensor_list_not_known[of "outer_graph st"]
  have b: "?tlist \<notin> set (external_captures (body_graph st))" "?tlist \<notin> set (external_captures (cond_graph st))"
    by (auto simp: wf_assembly_def)
  show ?thesis
    by (simp add: accumulate_step_def empty_tensor_list_eq capture_fresh[OF a(2) b(2)]
        tensor_list_push_back_fresh[OF a(1) b(1) assms(2)] Let_def)
qed

subsection \<open>Accumulator detection is stable when a sub-program grows\<close>

lemma op_outputs_t_op: "t \<in> set (op_outputs p) \<Longrightarrow> t_op t = p"
  by (auto simp: op_outputs_def)

lemma hd_op_outputs_t_op: "op_outputs p = out # rest \<Longrightarrow> t_op out = p"
  using op_outputs_t_op[of out p] by simp

lemma index_of_append_mem: "x \<in> set xs \<Longrightarrow> index_of (xs @ ys) x = index_of xs x"
  by (induction xs) auto

lemma index_of_None_iff: "index_of xs x = None \<longleftrightarrow> x \<notin> set xs"
  by (induction xs) auto

lemma index_of_append_fresh: "x \<notin> set xs \<Longrightarrow> index_of (xs @ x # ys) x = Some (length xs)"
  by (induction xs) auto

lemma index_of_Some_less: "index_of xs x = Some i \<Longrightarrow> i < length xs \<and> xs ! i = x"
  by (induction xs arbitrary: i) (auto split: if_splits)

lemma consumers_append:
  "g_operations g' = g_operations g @ new_ops \<Longrightarrow>
     consumers g' t = consumers g t @ filter (\<lambda>p. t \<in> set (op_inputs p)) new_ops"
  by (simp add: consumers_def)

lemma consumers_subset: "set (consumers g t) \<subseteq> set (g_operations g)"
  by (auto simp: consumers_def)

lemma get_accumulator_loop_append:
  "get_accumulator_loop fg (cs @ ds) =
     (case get_accumulator_loop fg cs of
        Inr None \<Rightarrow> get_accumulator_loop fg ds
      | r \<Rightarrow> r)"
  by (induction cs) (auto split: list.splits sum.splits option.splits)

lemma get_func_graph_output_stable:
  assumes wf: "wf_func_graph fg"
    and ops: "g_operations fg' = g_operations fg @ new_ops"
    and outs: "fg_outputs fg' = fg_outputs fg @ new_outs"
    and nout: "\<forall>t \<in> set new_outs. g_next fg \<le> op_name (t_op t)"
    and t: "op_name (t_op t) < g_next fg"
    and r: "get_func_graph_output fg t = Inr r"
  shows "get_func_graph_output fg' t = Inr r"
proof (cases "t \<in> set (fg_outputs fg)")
  case True
  with r outs show ?thesis by (simp add: get_func_graph_output_def)
next
  case False
  with t nout outs have nt: "t \<notin> set (fg_outputs fg')" by auto
  from False r obtain identity_op rest where c: "consumers fg t = identity_op # rest"
    by (cases "consumers fg t") (auto simp: get_func_graph_output_def)
  then have c': "consumers fg' t = identity_op # rest @ filter (\<lambda>p. t \<in> set (op_inputs p)) new_ops"
    by (simp add: consumers_append[OF ops])
  from c consumers_subset[of fg t] have mem: "identity_op \<in> set (g_operations fg)" by auto
  show ?thesis
  proof (cases "op_type identity_op = ''Identity''")
    case ty: True
    show ?thesis
    proof (cases "op_outputs identity_op")
      case Nil
      with r False c ty show ?thesis by (simp add: get_func_graph_output_def)
    next
      case (Cons out outs')
      from hd_op_outputs_t_op[OF Cons] mem wf have "op_name (t_op out) < g_next fg"
        by (auto simp: wf_func_graph_def)
      with nout outs have "out \<in> set (fg_outputs fg') \<longleftrightarrow> out \<in> set (fg_outputs fg)" by auto
      with r False nt c c' ty Cons show ?thesis by (simp add: get_func_graph_output_def)
    qed
  next
    case ty: False
    with r False nt c c' show ?thesis by (simp add: get_func_graph_output_def)
  qed
qed

lemma get_func_graph_output_mem:
  "get_func_graph_output fg t = Inr (Some out) \<Longrightarrow> out \<in> set (fg_outputs fg)"
  by (auto simp: get_func_graph_output_def split: if_splits list.splits)

lemma get_accumulator_loop_stable:
  assumes wf: "wf_func_graph fg"
    and ops: "g_operations fg' = g_operations fg @ new_ops"
    and ins: "fg_inputs fg' = fg_inputs fg @ new_ins"
    and outs: "fg_outputs fg' = fg_outputs fg @ new_outs"
    and nin: "\<forall>t \<in> set new_ins. g_next fg \<le> op_name (t_op t)"
    and nout: "\<forall>t \<in> set new_outs. g_next fg \<le> op_name (t_op t)"
  shows "set cs \<subseteq> set (g_operations fg) \<Longrightarrow> get_accumulator_loop fg cs = Inr r
           \<Longrightarrow> get_accumulator_loop fg' cs = Inr r"
proof (induction cs)
  case Nil
  then show ?case by simp
next
  case (Cons consumer rest)
  from Cons.prems have mem: "consumer \<in> set (g_operations fg)" and sub: "set rest \<subseteq> set (g_operations fg)"
    by auto
  show ?case
  proof (cases "op_type consumer \<noteq> ''TensorListPushBack''")
    case True
    with Cons sub show ?thesis by simp
  next
    case ty: False
    show ?thesis
    proof (cases "op_inputs consumer")
      case Nil
      with ty Cons.prems show ?thesis by simp
    next
      case inp: (Cons input_tl ins')
      with mem wf have "op_name (t_op input_tl) < g_next fg" by (auto simp: wf_func_graph_def)
      with nin ins have in_iff: "input_tl \<in> set (fg_inputs fg') \<longleftrightarrow> input_tl \<in> set (fg_inputs fg)"
        by auto
      show ?thesis
      proof (cases "input_tl \<in> set (fg_inputs fg)")
        case False
        with ty inp in_iff Cons sub show ?thesis by simp
      next
        case inm: True
        show ?thesis
        proof (cases "op_outputs consumer")
          case Nil
          with ty inp inm Cons.prems show ?thesis by simp
        next
          case outp: (Cons output_tl outs')
          from hd_op_outputs_t_op[OF outp] mem wf have nm: "op_name (t_op output_tl) < g_next fg"
            by (auto simp: wf_func_graph_def)
          show ?thesis
          proof (cases "get_func_graph_output fg output_tl")
            case (Inl e)
            with ty inp inm outp Cons.prems show ?thesis by simp
          next
            case (Inr res)
            from get_func_graph_output_stable[OF wf ops outs nout nm Inr]
            have res': "get_func_graph_output fg' output_tl = Inr res" .
            show ?thesis
            proof (cases res)
              case None
              with ty inp inm in_iff outp Inr res' Cons sub show ?thesis by simp
            next
              case (Some acc)
              with Inr have om: "acc \<in> set (fg_outputs fg)"
                by (auto dest: get_func_graph_output_mem)
              have i1: "index_of (fg_inputs fg') input_tl = index_of (fg_inputs fg) input_tl"
                using inm ins by (simp add: index_of_append_mem)
              have i2: "index_of (fg_outputs fg') acc = index_of (fg_outputs fg) acc"
                using om outs by (simp add: index_of_append_mem)
              from ty inp inm in_iff outp Inr res' Some i1 i2 Cons sub show ?thesis
                by (auto split: option.splits if_splits)
            qed
          qed
        qed
      qed
    qed
  qed
qed

lemma known_in_mono:
  "known_in g e \<Longrightarrow> g_id g' = g_id g \<Longrightarrow> g_next g \<le> g_next g' \<Longrightarrow> known_in g' e"
  by (auto simp: known_in_def)

lemma external_captures_simps [simp]:
  "external_captures (fg\<lparr>fg_captures := c\<rparr>) = map fst c"
  "external_captures (fg\<lparr>g_operations := ops\<rparr>) = external_captures fg"
  "external_captures (fg\<lparr>g_next := n\<rparr>) = external_captures fg"
  "external_captures (fg\<lparr>fg_inputs := i\<rparr>) = external_captures fg"
  "external_captures (fg\<lparr>fg_outputs := out\<rparr>) = external_captures fg"
  by (simp_all add: external_captures_def)

lemma wf_assembly_step:
  assumes wf: "wf_assembly st" and tg: "t_graph t = g_id (body_graph st)"
    and tn: "op_name (t_op t) < g_next (body_graph st)"
  shows "wf_assembly (accumulate_step st t)"
proof -
  let ?body = "body_graph st"
  let ?tl = "new_tensor_list (outer_graph st)"
  have names: "op_name (t_op (new_placeholder ?body ?tl)) = g_next ?body"
    "op_name (t_op (new_push_back ?body ?tl t)) = Suc (g_next ?body)"
    "op_graph (t_op (new_placeholder ?body ?tl)) = g_id ?body"
    "op_graph (t_op (new_push_back ?body ?tl t)) = g_id ?body"
    "op_inputs (t_op (new_placeholder ?body ?tl)) = []"
    "op_inputs (t_op (new_push_back ?body ?tl t)) = [new_placeholder ?body ?tl, t]"
    by (simp_all add: new_placeholder_def new_push_back_def)
  have k: "known_in (outer_graph st\<lparr>g_operations := g_operations (outer_graph st) @ [t_op ?tl],
                       g_next := Suc (g_next (outer_graph st))\<rparr>) ?tl"
    by (simp add: known_in_def new_tensor_list_def)
  from wf have wfb: "wf_func_graph ?body" by (simp add: wf_assembly_def)
  have "wf_func_graph (?body\<lparr>g_operations := g_operations ?body @ [t_op (new_placeholder ?body ?tl), t_op (new_push_back ?body ?tl t)],
         g_next := Suc (Suc (g_next ?body)),
         fg_captures := fg_captures ?body @ [(?tl, new_placeholder ?body ?tl)],
         fg_inputs := fg_inputs ?body @ [new_placeholder ?body ?tl],
         fg_outputs := fg_outputs ?body @ [new_push_back ?body ?tl t]\<rparr>)"
    using wfb tn unfolding wf_func_graph_def by (auto simp: names less_Suc_eq)
  moreover have "\<forall>e \<in> set (external_captures ?body). known_in (outer_graph st\<lparr>g_operations := g_operations (outer_graph st) @ [t_op ?tl],
                       g_next := Suc (g_next (outer_graph st))\<rparr>) e"
    using wf by (auto simp: wf_assembly_def intro: known_in_mono)
  moreover have "\<forall>e \<in> set (external_captures (cond_graph st)). known_in (outer_graph st\<lparr>g_operations := g_operations (outer_graph st) @ [t_op ?tl],
                       g_next := Suc (g_next (outer_graph st))\<rparr>) e"
    using wf by (auto simp: wf_assembly_def intro: known_in_mono)
  ultimately show ?thesis
    using wf k unfolding accumulate_step_eq[OF wf tg]
    by (simp add: wf_assembly_def Let_def external_captures_def)
qed

lemma accumulate_step_get_accumulator:
  assumes wf: "wf_assembly st" and tg: "t_graph t = g_id (body_graph st)"
    and len: "length (fg_inputs (body_graph st)) = length (fg_outputs (body_graph st))"
    and un: "op_name (t_op u) < g_next (body_graph st)"
    and r: "get_accumulator (body_graph st) u = Inr r"
  shows "get_accumulator (body_graph (accumulate_step st t)) u =
           Inr (if r = None \<and> u = t
                then Some (new_push_back (body_graph st) (new_tensor_list (outer_graph st)) t)
                else r)"
proof -
  let ?body = "body_graph st"
  let ?tl = "new_tensor_list (outer_graph st)"
  let ?ph = "new_placeholder ?body ?tl"
  let ?ap = "new_push_back ?body ?tl t"
  let ?body' = "body_graph (accumulate_step st t)"
  from wf have wfb: "wf_func_graph ?body" by (simp add: wf_assembly_def)
  have ops: "g_operations ?body' = g_operations ?body @ [t_op ?ph, t_op ?ap]"
    and ins: "fg_inputs ?body' = fg_inputs ?body @ [?ph]"
    and outs: "fg_outputs ?body' = fg_outputs ?body @ [?ap]"
    by (simp_all add: accumulate_step_eq[OF wf tg] Let_def)
  have names: "op_name (t_op ?ph) = g_next ?body" "op_name (t_op ?ap) = Suc (g_next ?body)"
    "op_inputs (t_op ?ph) = []" "op_inputs (t_op ?ap) = [?ph, t]"
    "op_type (t_op ?ap) = ''TensorListPushBack''" "op_outputs (t_op ?ap) = [?ap]"
    by (simp_all add: new_placeholder_def new_push_back_def op_outputs_def variant_scalar_def)
  have nin: "\<forall>x \<in> set [?ph]. g_next ?body \<le> op_name (t_op x)" by (simp add: names)
  have nout: "\<forall>x \<in> set [?ap]. g_next ?body \<le> op_name (t_op x)" by (simp add: names)
  from un names have uph: "u \<noteq> ?ph" by auto
  have cons: "consumers ?body' u = consumers ?body u @ (if u = t then [t_op ?ap] else [])"
    using uph by (simp add: consumers_append[OF ops] names)
  from r have r': "get_accumulator_loop ?body (consumers ?body u) = Inr r"
    by (simp add: get_accumulator_def)
  have old: "get_accumulator_loop ?body' (consumers ?body u) = Inr r"
    by (rule get_accumulator_loop_stable[OF wfb ops ins outs nin nout consumers_subset r'])
  have phn: "?ph \<notin> set (fg_inputs ?body)" using wfb names by (auto simp: wf_func_graph_def)
  have apn: "?ap \<notin> set (fg_outputs ?body)" using wfb names by (auto simp: wf_func_graph_def)
  have new: "get_accumulator_loop ?body' [t_op ?ap] = Inr (Some ?ap)"
    using phn apn len
    by (simp add: names ins outs get_func_graph_output_def index_of_append_fresh)
  show ?thesis
    unfolding get_accumulator_def cons get_accumulator_loop_append old
    using new by (cases r) auto
qed

subsection \<open>The accumulation loop\<close>

lemma accumulate_all_Cons: "accumulate_all st (t # ts) = accumulate_all (accumulate_step st t) ts"
  by (simp add: accumulate_all_def)

lemma accumulate_all_Nil: "accumulate_all st [] = st"
  by (simp add: accumulate_all_def)

lemma accumulate_step_body_facts:
  assumes wf: "wf_assembly st" and tg: "t_graph t = g_id (body_graph st)"
  shows "g_id (body_graph (accumulate_step st t)) = g_id (body_graph st)"
    and "g_next (body_graph (accumulate_step st t)) = Suc (Suc (g_next (body_graph st)))"
    and "length (fg_inputs (body_graph (accumulate_step st t))) = Suc (length (fg_inputs (body_graph st)))"
    and "length (fg_outputs (body_graph (accumulate_step st t))) = Suc (length (fg_outputs (body_graph st)))"
  by (simp_all add: accumulate_step_eq[OF wf tg] Let_def)

lemma valid_intermediates_step:
  "wf_assembly st \<Longrightarrow> valid_intermediates st (t # ts) \<Longrightarrow> valid_intermediates (accumulate_step st t) ts"
  by (auto simp: valid_intermediates_def accumulate_step_body_facts)

lemma accumulate_all_persist:
  "wf_assembly st \<Longrightarrow> valid_intermediates st ts
   \<Longrightarrow> length (fg_inputs (body_graph st)) = length (fg_outputs (body_graph st))
   \<Longrightarrow> op_name (t_op u) < g_next (body_graph st)
   \<Longrightarrow> get_accumulator (body_graph st) u = Inr (Some a)
   \<Longrightarrow> get_accumulator (body_graph (accumulate_all st ts)) u = Inr (Some a)"
proof (induction ts arbitrary: st)
  case Nil
  then show ?case by (simp add: accumulate_all_Nil)
next
  case (Cons t ts)
  from Cons.prems(2) have tg: "t_graph t = g_id (body_graph st)"
    and tn: "op_name (t_op t) < g_next (body_graph st)"
    by (simp_all add: valid_intermediates_def)
  let ?st1 = "accumulate_step st t"
  have "get_accumulator (body_graph ?st1) u = Inr (Some a)"
    using accumulate_step_get_accumulator[OF Cons.prems(1) tg Cons.prems(3,4,5)] by simp
  moreover have "op_name (t_op u) < g_next (body_graph ?st1)"
    using Cons.prems(4) by (simp add: accumulate_step_body_facts[OF Cons.prems(1) tg])
  moreover have "length (fg_inputs (body_graph ?st1)) = length (fg_outputs (body_graph ?st1))"
    using Cons.prems(3) by (simp add: accumulate_step_body_facts[OF Cons.prems(1) tg])
  ultimately show ?case
    unfolding accumulate_all_Cons
    using Cons.IH[OF wf_assembly_step[OF Cons.prems(1) tg tn]
        valid_intermediates_step[OF Cons.prems(1,2)]] by blast
qed

lemma accumulate_all_get_accumulator:
  "wf_assembly st \<Longrightarrow> valid_intermediates st ts
   \<Longrightarrow> length (fg_inputs (body_graph st)) = length (fg_outputs (body_graph st))
   \<Longrightarrow> \<forall>t \<in> set ts. \<exists>r. get_accumulator (body_graph st) t = Inr r
   \<Longrightarrow> \<forall>t \<in> set ts. \<exists>a. get_accumulator (body_graph (accumulate_all st ts)) t = Inr (Some a)"
proof (induction ts arbitrary: st)
  case Nil
  then show ?case by simp
next
  case (Cons t ts)
  from Cons.prems(2) have tg: "t_graph t = g_id (body_graph st)"
    and tn: "op_name (t_op t) < g_next (body_graph st)"
    by (simp_all add: valid_intermediates_def)
  let ?st1 = "accumulate_step st t"
  note wf1 = wf_assembly_step[OF Cons.prems(1) tg tn]
  note v1 = valid_intermediates_step[OF Cons.prems(1,2)]
  have len1: "length (fg_inputs (body_graph ?st1)) = length (fg_outputs (body_graph ?st1))"
    using Cons.prems(3) by (simp add: accumulate_step_body_facts[OF Cons.prems(1) tg])
  have ok1: "\<forall>u \<in> set ts. \<exists>r. get_accumulator (body_graph ?st1) u = Inr r"
  proof
    fix u assume u: "u \<in> set ts"
    with Cons.prems(2) have un: "op_name (t_op u) < g_next (body_graph st)"
      by (simp add: valid_intermediates_def)
    from u Cons.prems(4) obtain r where "get_accumulator (body_graph st) u = Inr r" by auto
    from accumulate_step_get_accumulator[OF Cons.prems(1) tg Cons.prems(3) un this]
    show "\<exists>r. get_accumulator (body_graph ?st1) u = Inr r" by blast
  qed
  from Cons.prems(4) obtain r where r: "get_accumulator (body_graph st) t = Inr r" by auto
  obtain a where a: "get_accumulator (body_graph ?st1) t = Inr (Some a)"
    using accumulate_step_get_accumulator[OF Cons.prems(1) tg Cons.prems(3) tn r]
    by (cases r) auto
  have tn1: "op_name (t_op t) < g_next (body_graph ?st1)"
    using tn by (simp add: accumulate_step_body_facts[OF Cons.prems(1) tg])
  have "get_accumulator (body_graph (accumulate_all ?st1 ts)) t = Inr (Some a)"
    by (rule accumulate_all_persist[OF wf1 v1 len1 tn1 a])
  with Cons.IH[OF wf1 v1 len1 ok1] show ?case
    by (auto simp: accumulate_all_Cons)
qed

lemma intermediates_of_outputs_filter:
  "intermediates_of_outputs fg outs = Inr xs \<Longrightarrow> xs = filter (accumulation_candidate fg) outs"
  by (induction outs arbitrary: xs)
    (auto simp: accumulation_candidate_def split: list.splits sum.splits if_splits)

lemma intermediates_of_ops_filter:
  "intermediates_of_ops fg ps = Inr xs \<Longrightarrow>
     xs = concat (map (\<lambda>p. filter (accumulation_candidate fg) (op_outputs p))
                   (filter (\<lambda>p. op_type p \<noteq> ''Identity'') ps))"
  by (induction ps arbitrary: xs)
    (auto split: sum.splits if_splits dest: intermediates_of_outputs_filter)

lemma get_intermediates_filter:
  "get_intermediates fg = Inr xs \<Longrightarrow>
     xs = concat (map (\<lambda>p. filter (accumulation_candidate fg) (op_outputs p))
                   (filter (\<lambda>p. op_type p \<noteq> ''Identity'') (g_operations fg)))"
  unfolding get_intermediates_def by (rule intermediates_of_ops_filter)

lemma get_intermediates_valid:
  assumes "wf_assembly st" and "get_intermediates (body_graph st) = Inr ts"
  shows "valid_intermediates st ts" and "\<forall>t \<in> set ts. get_accumulator (body_graph st) t = Inr None"
proof -
  from assms(1) have wfb: "wf_func_graph (body_graph st)" by (simp add: wf_assembly_def)
  note f = get_intermediates_filter[OF assms(2)]
  show "valid_intermediates st ts"
    unfolding valid_intermediates_def
  proof
    fix t assume "t \<in> set ts"
    with f obtain p where "p \<in> set (g_operations (body_graph st))" "t \<in> set (op_outputs p)"
      by auto
    with wfb op_outputs_t_op[of t p]
    show "t_graph t = g_id (body_graph st) \<and> op_name (t_op t) < g_next (body_graph st)"
      by (auto simp: wf_func_graph_def t_graph_def)
  qed
  show "\<forall>t \<in> set ts. get_accumulator (body_graph st) t = Inr None"
    using f by (auto simp: accumulation_candidate_def split: list.splits)
qed

lemma accumulator_wiring_mono:
  "accumulator_wiring g' a b c d \<Longrightarrow> g_id g' = g_id g \<Longrightarrow> g_next g \<le> g_next g'
     \<Longrightarrow> accumulator_wiring g a b c d"
  by (auto simp: accumulator_wiring_def)

lemma accumulate_all_structure:
  "wf_assembly st \<Longrightarrow> valid_intermediates st ts \<Longrightarrow>
   \<exists>tls phs aps. length tls = length ts \<and> length phs = length ts \<and> length aps = length ts
     \<and> loop_vars (accumulate_all st ts) = loop_vars st @ map Leaf tls
     \<and> fg_inputs (body_graph (accumulate_all st ts)) = fg_inputs (body_graph st) @ phs
     \<and> fg_outputs (body_graph (accumulate_all st ts)) = fg_outputs (body_graph st) @ aps
     \<and> fg_captures (body_graph (accumulate_all st ts)) = fg_captures (body_graph st) @ zip tls phs
     \<and> length (fg_inputs (cond_graph (accumulate_all st ts)))
          = length (fg_inputs (cond_graph st)) + length ts
     \<and> fg_outputs (cond_graph (accumulate_all st ts)) = fg_outputs (cond_graph st)
     \<and> (\<forall>k < length ts. accumulator_wiring (outer_graph st) (tls ! k) (phs ! k) (aps ! k) (ts ! k))"
proof (induction ts arbitrary: st)
  case Nil
  then show ?case by (simp add: accumulate_all_Nil)
next
  case (Cons t ts)
  from Cons.prems(2) have tg: "t_graph t = g_id (body_graph st)"
    and tn: "op_name (t_op t) < g_next (body_graph st)"
    by (simp_all add: valid_intermediates_def)
  let ?st1 = "accumulate_step st t"
  let ?tl = "new_tensor_list (outer_graph st)"
  let ?ph = "new_placeholder (body_graph st) ?tl"
  let ?ap = "new_push_back (body_graph st) ?tl t"
  note wf1 = wf_assembly_step[OF Cons.prems(1) tg tn]
  note v1 = valid_intermediates_step[OF Cons.prems(1,2)]
  from Cons.IH[OF wf1 v1] obtain tls phs aps where
    l: "length tls = length ts" "length phs = length ts" "length aps = length ts"
    and lv: "loop_vars (accumulate_all ?st1 ts) = loop_vars ?st1 @ map Leaf tls"
    and ins: "fg_inputs (body_graph (accumulate_all ?st1 ts)) = fg_inputs (body_graph ?st1) @ phs"
    and outs: "fg_outputs (body_graph (accumulate_all ?st1 ts)) = fg_outputs (body_graph ?st1) @ aps"
    and caps: "fg_captures (body_graph (accumulate_all ?st1 ts)) = fg_captures (body_graph ?st1) @ zip tls phs"
    and cin: "length (fg_inputs (cond_graph (accumulate_all ?st1 ts)))
          = length (fg_inputs (cond_graph ?st1)) + length ts"
    and cout: "fg_outputs (cond_graph (accumulate_all ?st1 ts)) = fg_outputs (cond_graph ?st1)"
    and w: "\<forall>k < length ts. accumulator_wiring (outer_graph ?st1) (tls ! k) (phs ! k) (aps ! k) (ts ! k)"
    by blast
  have s: "loop_vars ?st1 = loop_vars st @ [Leaf ?tl]"
    "fg_inputs (body_graph ?st1) = fg_inputs (body_graph st) @ [?ph]"
    "fg_outputs (body_graph ?st1) = fg_outputs (body_graph st) @ [?ap]"
    "fg_captures (body_graph ?st1) = fg_captures (body_graph st) @ [(?tl, ?ph)]"
    "length (fg_inputs (cond_graph ?st1)) = Suc (length (fg_inputs (cond_graph st)))"
    "fg_outputs (cond_graph ?st1) = fg_outputs (cond_graph st)"
    "g_id (outer_graph ?st1) = g_id (outer_graph st)"
    "g_next (outer_graph ?st1) = Suc (g_next (outer_graph st))"
    by (simp_all add: accumulate_step_eq[OF Cons.prems(1) tg] Let_def)
  have w0: "accumulator_wiring (outer_graph st) ?tl ?ph ?ap t"
    by (simp add: accumulator_wiring_def new_tensor_list_def new_placeholder_def
        new_push_back_def t_graph_def)
  have wk: "\<forall>k < length (t # ts). accumulator_wiring (outer_graph st)
               ((?tl # tls) ! k) ((?ph # phs) ! k) ((?ap # aps) ! k) ((t # ts) ! k)"
  proof (intro allI impI)
    fix k assume "k < length (t # ts)"
    then show "accumulator_wiring (outer_graph st)
               ((?tl # tls) ! k) ((?ph # phs) ! k) ((?ap # aps) ! k) ((t # ts) ! k)"
      using w0 w s(7,8) by (cases k) (auto intro: accumulator_wiring_mono)
  qed
  show ?case
    apply (rule exI[of _ "?tl # tls"], rule exI[of _ "?ph # phs"], rule exI[of _ "?ap # aps"])
    using l lv ins outs caps cin cout wk
    by (simp add: accumulate_all_Cons s)
qed

lemma intermediates_of_outputs_no_inputs:
  "intermediates_of_outputs fg outs = Inr xs \<Longrightarrow> fg_inputs fg = [] \<Longrightarrow> outs = []"
  by (cases outs) auto

lemma intermediates_of_ops_no_inputs:
  "intermediates_of_ops fg ps = Inr xs \<Longrightarrow> fg_inputs fg = [] \<Longrightarrow>
     \<forall>p \<in> set ps. op_type p \<noteq> ''Identity'' \<longrightarrow> op_outputs p = []"
  by (induction ps arbitrary: xs)
    (auto split: sum.splits if_splits dest: intermediates_of_outputs_no_inputs)

lemma get_intermediates_explicit:
  assumes "get_intermediates fg = Inr xs"
  shows "xs = concat (map (\<lambda>p. filter (\<lambda>out. out \<noteq> hd (fg_inputs fg) \<and> t_dtype out \<noteq> DT_RESOURCE
                                         \<and> get_accumulator fg out = Inr None) (op_outputs p))
                   (filter (\<lambda>p. op_type p \<noteq> ''Identity'') (g_operations fg)))"
proof (cases "fg_inputs fg")
  case Nil
  from intermediates_of_ops_no_inputs[OF assms[unfolded get_intermediates_def] Nil]
  have "\<forall>p \<in> set (g_operations fg). op_type p \<noteq> ''Identity'' \<longrightarrow> op_outputs p = []" .
  then have "concat (map (\<lambda>p. filter (\<lambda>out. out \<noteq> hd (fg_inputs fg) \<and> t_dtype out \<noteq> DT_RESOURCE
                                         \<and> get_accumulator fg out = Inr None) (op_outputs p))
                   (filter (\<lambda>p. op_type p \<noteq> ''Identity'') (g_operations fg))) = []"
    "concat (map (\<lambda>p. filter (accumulation_candidate fg) (op_outputs p))
                   (filter (\<lambda>p. op_type p \<noteq> ''Identity'') (g_operations fg))) = []"
    by auto
  with get_intermediates_filter[OF assms] show ?thesis by simp
next
  case (Cons c rest)
  then have "accumulation_candidate fg = (\<lambda>out. out \<noteq> hd (fg_inputs fg) \<and> t_dtype out \<noteq> DT_RESOURCE
                                         \<and> get_accumulator fg out = Inr None)"
    by (auto simp: accumulation_candidate_def fun_eq_iff)
  with get_intermediates_filter[OF assms] show ?thesis by simp
qed

lemma accumulation_candidate_None:
  "accumulation_candidate fg t \<Longrightarrow> get_accumulator fg t = Inr None"
  by (auto simp: accumulation_candidate_def split: list.splits)

lemma get_intermediates_None:
  "get_intermediates fg = Inr xs \<Longrightarrow> t \<in> set xs \<Longrightarrow> get_accumulator fg t = Inr None"
  by (auto dest!: get_intermediates_filter accumulation_candidate_None)

subsection \<open>What the Accumulation Manager selects and creates when it returns\<close>

lemma accumulation_manager_structure:
  assumes "wf_assembly st" and "accumulation_manager st = Inr st'"
  shows "\<exists>ts tls phs aps.
      get_intermediates (body_graph st) = Inr ts
      \<and> ts = concat (map (\<lambda>p. filter (\<lambda>out. out \<noteq> hd (fg_inputs (body_graph st))
                                    \<and> t_dtype out \<noteq> DT_RESOURCE
                                    \<and> get_accumulator (body_graph st) out = Inr None) (op_outputs p))
                   (filter (\<lambda>p. op_type p \<noteq> ''Identity'') (g_operations (body_graph st))))
      \<and> length tls = length ts \<and> length phs = length ts \<and> length aps = length ts
      \<and> loop_vars st' = loop_vars st @ map Leaf tls
      \<and> fg_inputs (body_graph st') = fg_inputs (body_graph st) @ phs
      \<and> fg_outputs (body_graph st') = fg_outputs (body_graph st) @ aps
      \<and> fg_captures (body_graph st') = fg_captures (body_graph st) @ zip tls phs
      \<and> length (fg_inputs (cond_graph st')) = length (fg_inputs (cond_graph st)) + length ts
      \<and> (\<forall>k < length ts.
            accumulator_wiring (outer_graph st) (tls ! k) (phs ! k) (aps ! k) (ts ! k))"
proof -
  from assms(2) obtain ts where ts: "get_intermediates (body_graph st) = Inr ts"
    and st': "st' = accumulate_all st ts"
    by (auto simp: accumulation_manager_def split: sum.splits)
  from accumulate_all_structure[OF assms(1) get_intermediates_valid(1)[OF assms(1) ts]]
    get_intermediates_explicit[OF ts] ts
  show ?thesis unfolding st' by blast
qed

subsection \<open>The accumulator pattern\<close>

lemma exported_list_output:
  "exported_list fg output_tl = Some out \<Longrightarrow> get_func_graph_output fg output_tl = Inr (Some out)"
  by (auto simp: exported_list_def get_func_graph_output_def split: if_splits list.splits)

lemma exported_list_mem: "exported_list fg output_tl = Some out \<Longrightarrow> out \<in> set (fg_outputs fg)"
  by (auto simp: exported_list_def split: if_splits list.splits)

lemma accumulates_found:
  assumes "accumulates fg consumer"
  shows "\<exists>a. get_accumulator_loop fg (consumer # rest) = Inr (Some a)"
proof -
  from assms have ty: "op_type consumer = ''TensorListPushBack''" by (simp add: accumulates_def)
  from assms obtain input_tl ins where i: "op_inputs consumer = input_tl # ins"
    by (cases "op_inputs consumer") (auto simp: accumulates_def)
  from assms i have im: "input_tl \<in> set (fg_inputs fg)" by (simp add: accumulates_def)
  from assms i obtain output_tl outs where o: "op_outputs consumer = output_tl # outs"
    by (cases "op_outputs consumer") (auto simp: accumulates_def)
  from assms i o obtain out where e: "exported_list fg output_tl = Some out"
    and ix: "index_of (fg_inputs fg) input_tl = index_of (fg_outputs fg) out"
    by (cases "exported_list fg output_tl") (auto simp: accumulates_def)
  from im obtain k where k: "index_of (fg_inputs fg) input_tl = Some k"
    by (cases "index_of (fg_inputs fg) input_tl") (auto simp: index_of_None_iff)
  from ty i im o exported_list_output[OF e] k ix show ?thesis by simp
qed

lemma has_accumulator_loop:
  "list_ex (accumulates fg) cs \<Longrightarrow> get_accumulator_loop fg cs = Inr r \<Longrightarrow> r \<noteq> None"
proof (induction cs)
  case Nil
  then show ?case by simp
next
  case (Cons consumer rest)
  show ?case
  proof (cases "accumulates fg consumer")
    case True
    from accumulates_found[OF True, of rest] Cons.prems(2) show ?thesis by auto
  next
    case False
    with Cons.prems(1) have ex: "list_ex (accumulates fg) rest" by simp
    show ?thesis
    proof (cases "get_accumulator_loop fg rest = Inr r")
      case True
      from Cons.IH[OF ex True] show ?thesis .
    next
      case ne: False
      with Cons.prems(2) show ?thesis
        by (auto split: if_splits list.splits sum.splits option.splits)
    qed
  qed
qed

lemma has_accumulator_detected:
  "has_accumulator fg t \<Longrightarrow> get_accumulator fg t = Inr r \<Longrightarrow> r \<noteq> None"
  unfolding has_accumulator_def get_accumulator_def by (rule has_accumulator_loop)

lemma has_accumulator_not_selected:
  "has_accumulator fg t \<Longrightarrow> get_intermediates fg = Inr xs \<Longrightarrow> t \<notin> set xs"
  using get_intermediates_None[of fg xs t] has_accumulator_detected[of fg t None] by auto

lemma appended_to_has_accumulator: "appended_to fg u ph ap \<Longrightarrow> has_accumulator fg u"
  unfolding has_accumulator_def list_ex_iff
  by (rule bexI[of _ "t_op ap"]) (auto simp: appended_to_def accumulates_def exported_list_def)

lemma appended_to_grows:
  assumes "appended_to fg u ph ap"
    and "g_operations fg' = g_operations fg @ new_ops"
    and "fg_inputs fg' = fg_inputs fg @ new_ins"
    and "fg_outputs fg' = fg_outputs fg @ new_outs"
  shows "appended_to fg' u ph ap"
  using assms by (auto simp: appended_to_def consumers_append index_of_append_mem)

lemma accumulate_step_appended_to:
  assumes wf: "wf_assembly st" and tg: "t_graph t = g_id (body_graph st)"
    and len: "length (fg_inputs (body_graph st)) = length (fg_outputs (body_graph st))"
  shows "appended_to (body_graph (accumulate_step st t)) t
           (new_placeholder (body_graph st) (new_tensor_list (outer_graph st)))
           (new_push_back (body_graph st) (new_tensor_list (outer_graph st)) t)"
proof -
  let ?body = "body_graph st"
  let ?tl = "new_tensor_list (outer_graph st)"
  let ?ph = "new_placeholder ?body ?tl"
  let ?ap = "new_push_back ?body ?tl t"
  let ?body' = "body_graph (accumulate_step st t)"
  from wf have wfb: "wf_func_graph ?body" by (simp add: wf_assembly_def)
  have ops: "g_operations ?body' = g_operations ?body @ [t_op ?ph, t_op ?ap]"
    and ins: "fg_inputs ?body' = fg_inputs ?body @ [?ph]"
    and outs: "fg_outputs ?body' = fg_outputs ?body @ [?ap]"
    by (simp_all add: accumulate_step_eq[OF wf tg] Let_def)
  have names: "op_name (t_op ?ph) = g_next ?body" "op_name (t_op ?ap) = Suc (g_next ?body)"
    "op_inputs (t_op ?ph) = []" "op_inputs (t_op ?ap) = [?ph, t]"
    "op_type (t_op ?ap) = ''TensorListPushBack''" "op_outputs (t_op ?ap) = [?ap]"
    by (simp_all add: new_placeholder_def new_push_back_def op_outputs_def variant_scalar_def)
  have phn: "?ph \<notin> set (fg_inputs ?body)" using wfb names by (auto simp: wf_func_graph_def)
  have apn: "?ap \<notin> set (fg_outputs ?body)" using wfb names by (auto simp: wf_func_graph_def)
  have "t_op ?ap \<in> set (consumers ?body' t)"
    by (simp add: consumers_append[OF ops] names)
  then show ?thesis
    using phn apn len
    by (simp add: appended_to_def names ins outs index_of_append_fresh)
qed

lemma accumulate_step_grows:
  assumes wf: "wf_assembly st" and tg: "t_graph t = g_id (body_graph st)"
  shows "\<exists>new_ops new_ins new_outs.
      g_operations (body_graph (accumulate_step st t)) = g_operations (body_graph st) @ new_ops
      \<and> fg_inputs (body_graph (accumulate_step st t)) = fg_inputs (body_graph st) @ new_ins
      \<and> fg_outputs (body_graph (accumulate_step st t)) = fg_outputs (body_graph st) @ new_outs"
  by (simp add: accumulate_step_eq[OF wf tg] Let_def)

lemma accumulate_all_keeps_appended:
  "wf_assembly st \<Longrightarrow> valid_intermediates st ts \<Longrightarrow> appended_to (body_graph st) u ph ap
     \<Longrightarrow> appended_to (body_graph (accumulate_all st ts)) u ph ap"
proof (induction ts arbitrary: st)
  case Nil
  then show ?case by (simp add: accumulate_all_Nil)
next
  case (Cons t ts)
  from Cons.prems(2) have tg: "t_graph t = g_id (body_graph st)"
    and tn: "op_name (t_op t) < g_next (body_graph st)"
    by (simp_all add: valid_intermediates_def)
  from accumulate_step_grows[OF Cons.prems(1) tg] appended_to_grows[OF Cons.prems(3)]
  have "appended_to (body_graph (accumulate_step st t)) u ph ap" by blast
  from Cons.IH[OF wf_assembly_step[OF Cons.prems(1) tg tn]
      valid_intermediates_step[OF Cons.prems(1,2)] this]
  show ?case by (simp add: accumulate_all_Cons)
qed

lemma accumulate_all_has_accumulator:
  "wf_assembly st \<Longrightarrow> valid_intermediates st ts
   \<Longrightarrow> length (fg_inputs (body_graph st)) = length (fg_outputs (body_graph st))
   \<Longrightarrow> \<forall>t \<in> set ts. has_accumulator (body_graph (accumulate_all st ts)) t"
proof (induction ts arbitrary: st)
  case Nil
  then show ?case by simp
next
  case (Cons t ts)
  from Cons.prems(2) have tg: "t_graph t = g_id (body_graph st)"
    and tn: "op_name (t_op t) < g_next (body_graph st)"
    by (simp_all add: valid_intermediates_def)
  let ?st1 = "accumulate_step st t"
  note wf1 = wf_assembly_step[OF Cons.prems(1) tg tn]
  note v1 = valid_intermediates_step[OF Cons.prems(1,2)]
  have len1: "length (fg_inputs (body_graph ?st1)) = length (fg_outputs (body_graph ?st1))"
    using Cons.prems(3) by (simp add: accumulate_step_body_facts[OF Cons.prems(1) tg])
  from accumulate_all_keeps_appended[OF wf1 v1
      accumulate_step_appended_to[OF Cons.prems(1) tg Cons.prems(3)]]
  have "has_accumulator (body_graph (accumulate_all ?st1 ts)) t"
    by (rule appended_to_has_accumulator)
  with Cons.IH[OF wf1 v1 len1] show ?case by (simp add: accumulate_all_Cons)
qed

subsection \<open>The assembler only appends to the outputs and to the loop-carried list\<close>

lemma capture_helper_outputs [simp]: "fg_outputs (fst (capture_helper fg t)) = fg_outputs fg"
  by (simp add: capture_helper_def create_op_def Let_def split: option.splits)

lemma capture_outputs [simp]: "fg_outputs (fst (capture fg t)) = fg_outputs fg"
  by (simp add: capture_def)

lemma capture_all_outputs [simp]: "fg_outputs (fst (capture_all fg ts)) = fg_outputs fg"
proof (induction ts arbitrary: fg)
  case Nil
  then show ?case by simp
next
  case (Cons t ts)
  have "fg_outputs (fst (capture_all (fst (capture fg t)) ts)) = fg_outputs fg"
    using Cons.IH[of "fst (capture fg t)"] by simp
  then show ?case by (simp add: split_beta Let_def)
qed

lemma tensor_list_push_back_outputs [simp]:
  "fg_outputs (fst (tensor_list_push_back fg h t)) = fg_outputs fg"
  by (simp add: tensor_list_push_back_def fg_create_op_def create_op_def split_beta Let_def)



lemma reconcile_captures_outputs:
  "reconcile_captures cond caps = Inr cond' \<Longrightarrow> fg_outputs cond' = fg_outputs cond"
  by (induction caps arbitrary: cond) (auto split: if_splits)





lemma same_structure_map_structure: "same_structure x (map_structure f x)"
  by (induction x) (simp_all add: list_all2_map2 list_all2_same)


lemma get_accumulator_loop_Some:
  "get_accumulator_loop fg cs = Inr (Some a) \<Longrightarrow>
     \<exists>consumer input_tl ins output_tl outs index.
        consumer \<in> set cs \<and> op_type consumer = ''TensorListPushBack''
        \<and> op_inputs consumer = input_tl # ins \<and> op_outputs consumer = output_tl # outs
        \<and> get_func_graph_output fg output_tl = Inr (Some a)
        \<and> index_of (fg_inputs fg) input_tl = Some index
        \<and> index_of (fg_outputs fg) a = Some index"
proof (induction cs)
  case Nil
  then show ?case by simp
next
  case (Cons consumer rest)
  show ?case
  proof (cases "get_accumulator_loop fg rest = Inr (Some a)")
    case True
    from Cons.IH[OF True] show ?thesis by (meson list.set_intros(2))
  next
    case False
    with Cons.prems have ty: "op_type consumer = ''TensorListPushBack''"
      by (auto split: if_splits)
    from False Cons.prems ty obtain input_tl ins where i: "op_inputs consumer = input_tl # ins"
      by (cases "op_inputs consumer") auto
    from False Cons.prems ty i have im: "input_tl \<in> set (fg_inputs fg)"
      by (auto split: if_splits)
    from False Cons.prems ty i im obtain output_tl outs where
      out: "op_outputs consumer = output_tl # outs"
      by (cases "op_outputs consumer") auto
    from False Cons.prems ty i im out obtain acc where
      g: "get_func_graph_output fg output_tl = Inr (Some acc)"
      by (cases "get_func_graph_output fg output_tl") (auto split: option.splits)
    from False Cons.prems ty i im out g obtain i1 i2 where
      ix: "index_of (fg_inputs fg) input_tl = Some i1" "index_of (fg_outputs fg) acc = Some i2"
      by (cases "index_of (fg_inputs fg) input_tl"; cases "index_of (fg_outputs fg) acc") auto
    from False Cons.prems ty i im out g ix have "i1 = i2" "acc = a"
      by (auto split: if_splits)
    with ty i out g ix show ?thesis by auto
  qed
qed

subsection \<open>Masking and padding of gradients\<close>

lemma mask_tensor_array_grads_length:
  "mask_tensor_array_grads mc grads outs = Inr r \<Longrightarrow> length r = min (length grads) (length outs)"
  by (induction mc grads outs arbitrary: r rule: mask_tensor_array_grads.induct)
    (auto split: sum.splits)

lemma mask_tensor_array_grads_Cons:
  assumes "mask_tensor_array_grads mc (grad # grads) (out # outs) = Inr r"
  shows "\<exists>rest. mask_tensor_array_grads mc grads outs = Inr rest
           \<and> ((is_tensor_array_handle mc out = Inr True \<and> r = None # rest)
              \<or> (is_tensor_array_handle mc out = Inr False \<and> r = grad # rest))"
proof (cases "is_tensor_array_handle mc out")
  case (Inl e)
  with assms show ?thesis by simp
next
  case b: (Inr b)
  show ?thesis
  proof (cases "mask_tensor_array_grads mc grads outs")
    case (Inl e)
    with assms b show ?thesis by simp
  next
    case (Inr rest)
    show ?thesis
    proof (cases b)
      case True
      with assms b Inr show ?thesis by simp
    next
      case False
      with assms b Inr show ?thesis by simp
    qed
  qed
qed

lemma mask_tensor_array_grads_nth:
  "mask_tensor_array_grads mc grads outs = Inr r \<Longrightarrow> i < length r \<Longrightarrow>
     (is_tensor_array_handle mc (outs ! i) = Inr True \<and> r ! i = None)
     \<or> (is_tensor_array_handle mc (outs ! i) = Inr False \<and> r ! i = grads ! i)"
proof (induction grads arbitrary: outs r i)
  case Nil
  then show ?case by simp
next
  case (Cons grad grads)
  show ?case
  proof (cases outs)
    case Nil
    with Cons.prems show ?thesis by simp
  next
    case c: (Cons out outs')
    from mask_tensor_array_grads_Cons[OF Cons.prems(1)[unfolded c]] obtain rest where
      rest: "mask_tensor_array_grads mc grads outs' = Inr rest"
      and r: "(is_tensor_array_handle mc out = Inr True \<and> r = None # rest)
              \<or> (is_tensor_array_handle mc out = Inr False \<and> r = grad # rest)"
      by blast
    from r have lr: "length r = Suc (length rest)" by auto
    show ?thesis
    proof (cases i)
      case 0
      with r c show ?thesis by auto
    next
      case (Suc j)
      with Cons.prems(2) lr have "j < length rest" by simp
      from Cons.IH[OF rest this] have
        "(is_tensor_array_handle mc (outs' ! j) = Inr True \<and> rest ! j = None)
         \<or> (is_tensor_array_handle mc (outs' ! j) = Inr False \<and> rest ! j = grads ! j)" .
      moreover have "r ! i = rest ! j" using r Suc by auto
      ultimately show ?thesis using Suc c by simp
    qed
  qed
qed

lemma none_pad_length: "none_pad grads outputs index = Inr r \<Longrightarrow> length r = length grads"
  by (induction grads outputs index arbitrary: r rule: none_pad.induct)
    (auto split: sum.splits if_splits)

lemma none_pad_None:
  "none_pad grads outputs index = Inr r \<Longrightarrow> i < length grads \<Longrightarrow>
     (r ! i = None \<longleftrightarrow> grads ! i = None)"
proof (induction grads outputs index arbitrary: r i rule: none_pad.induct)
  case (2 grads outputs index)
  then show ?case by (cases i) (auto split: sum.splits)
next
  case (3 g grads outputs index)
  then show ?case by (cases i) (auto split: sum.splits if_splits)
qed auto

lemma none_pad_order:
  "none_pad grads outputs index = Inr r \<Longrightarrow>
     map the (filter (\<lambda>x. x \<noteq> None) r)
       = take (length (filter (\<lambda>x. x \<noteq> None) r)) (drop index outputs)"
proof (induction grads outputs index arbitrary: r rule: none_pad.induct)
  case (3 g grads outputs index)
  from "3.prems" obtain rest where i: "index < length outputs"
    and rest: "none_pad grads outputs (index + 1) = Inr rest"
    and r: "r = Some (outputs ! index) # rest"
    by (auto split: sum.splits if_splits)
  from i have d: "drop index outputs = outputs ! index # drop (index + 1) outputs"
    by (simp add: Cons_nth_drop_Suc)
  from "3.IH"[OF i rest] show ?case by (simp add: r d)
qed (auto split: sum.splits)


subsection \<open>The steps of the gradient assembler\<close>






lemma WhileGrad_Inr:
  assumes "WhileGrad mc is_trainable build_grad cond_id g body_g while_op grads0 = Inr res"
  shows "\<exists>grads. mask_tensor_array_grads mc grads0 (op_outputs while_op) = Inr grads
           \<and> all_trainable_have_grads is_trainable (op_outputs while_op) grads
           \<and> none_pad grads (wg_outputs res) 2 = Inr (wg_grads res)"
proof -
  note a = assms[unfolded WhileGrad_def]
  obtain grads where m: "mask_tensor_array_grads mc grads0 (op_outputs while_op) = Inr grads"
    using a by (cases "mask_tensor_array_grads mc grads0 (op_outputs while_op)") simp_all
  have t: "all_trainable_have_grads is_trainable (op_outputs while_op) grads"
    using a m by (cases "all_trainable_have_grads is_trainable (op_outputs while_op) grads") simp_all
  obtain ys xs nn where s: "select_non_none (fg_outputs body_g) (fg_inputs body_g) grads = Inr (ys, xs, nn)"
    using a m t by (cases "select_non_none (fg_outputs body_g) (fg_inputs body_g) grads") auto
  obtain g1 gg args where c: "create_grad_func build_grad g ys xs nn while_op = Inr (g1, gg, args)"
    using a m t s by (cases "create_grad_func build_grad g ys xs nn while_op") auto
  obtain ts where i: "get_intermediates gg = Inr ts"
    using a m t s c by (cases "get_intermediates gg") auto
  obtain g2 gg' where ac: "grad_accumulate_all (g1, gg) ts = Inr (g2, gg')"
    using a m t s c i by (cases "grad_accumulate_all (g1, gg) ts") auto
  obtain cg where b: "build_grad_cond cond_id (args @ external_captures gg') = Inr cg"
    using a m t s c i ac
    by (cases "build_grad_cond cond_id (args @ external_captures gg')") (auto simp: Let_def)
  have k: "check_num_inputs_outputs cg gg' (length (args @ external_captures gg')) = Inr ()"
    using a m t s c i ac b
    by (cases "check_num_inputs_outputs cg gg' (length (args @ external_captures gg'))")
      (auto simp: Let_def)
  obtain g3 outputs where e: "emit_while g2 (args @ external_captures gg')
        (map t_shape (fg_outputs gg')) = (g3, outputs)"
    by (cases "emit_while g2 (args @ external_captures gg') (map t_shape (fg_outputs gg'))")
  obtain padded where p: "none_pad grads outputs 2 = Inr padded"
    using a m t s c i ac b k e by (cases "none_pad grads outputs 2") (auto simp: Let_def)
  have "res = \<lparr>wg_graph = g3, wg_cond_graph = cg, wg_body_graph = gg',
               wg_loop_vars = args @ external_captures gg', wg_outputs = outputs,
               wg_grads = padded\<rparr>"
    using a m t s c i ac b k e p by (simp add: Let_def)
  with m t p show ?thesis by simp
qed

subsection \<open>The iteration counter\<close>




subsection \<open>The capture resolver\<close>

lemma forward_graph_updates [simp]:
  "forward_graph (g_id_update f0 gg) = forward_graph gg"
  "forward_graph (g_operations_update f1 gg) = forward_graph gg"
  "forward_graph (g_next_update f2 gg) = forward_graph gg"
  "forward_graph (fg_inputs_update f3 gg) = forward_graph gg"
  "forward_graph (fg_outputs_update f4 gg) = forward_graph gg"
  "forward_graph (fg_captures_update f5 gg) = forward_graph gg"
  by (cases gg; simp)+

lemma map_of_append_fresh: "map_of xs k = None \<Longrightarrow> map_of (xs @ [(k, v)]) k = Some v"
  by (induction xs) auto

lemma capture_helper_result:
  "capture_helper fg t = (fg', c) \<Longrightarrow>
     map_of (fg_captures fg') t = Some c \<and> g_id fg' = g_id fg
     \<and> (map_of (fg_captures fg) t \<noteq> None \<longrightarrow> fg' = fg)"
proof (cases "map_of (fg_captures fg) t")
  case None
  assume a: "capture_helper fg t = (fg', c)"
  from None a have "fg_captures fg' = fg_captures fg @ [(t, c)]" "g_id fg' = g_id fg"
    by (auto simp: capture_helper_def create_op_def Let_def)
  with None map_of_append_fresh[OF None, of c] show ?thesis by simp
next
  case (Some c0)
  assume "capture_helper fg t = (fg', c)"
  with Some show ?thesis by (simp add: capture_helper_def)
qed

lemma capture_helper_known:
  "map_of (fg_captures fg) t = Some c \<Longrightarrow> capture_helper fg t = (fg, c)"
  by (simp add: capture_helper_def)

lemma capture_helper_grad_fields:
  fixes gg :: grad_func_graph
  assumes "capture_helper gg t = (gg', c)"
  shows "forward_graph gg' = forward_graph gg \<and> forward_while gg' = forward_while gg
    \<and> forward_outer_graph gg' = forward_outer_graph gg
    \<and> indirect_captures gg' = indirect_captures gg
    \<and> inner_to_outer_tensor gg' = inner_to_outer_tensor gg
    \<and> popped_tensor_lists gg' = popped_tensor_lists gg"
proof (cases "map_of (fg_captures gg) t")
  case None
  with assms have "gg' = gg\<lparr>g_operations := g_operations gg @ [t_op c],
       g_next := Suc (g_next gg), fg_captures := fg_captures gg @ [(t, c)],
       fg_inputs := fg_inputs gg @ [c]\<rparr>"
    by (auto simp: capture_helper_def create_op_def Let_def)
  then show ?thesis by simp
next
  case (Some c0)
  with assms show ?thesis by (simp add: capture_helper_def)
qed

lemma map_of_in_external: "map_of (fg_captures fg) t = Some c \<Longrightarrow> t \<in> set (external_captures fg)"
  by (auto simp: external_captures_def dest: map_of_SomeD intro: rev_image_eqI)


lemma grad_capture_helper_cached:
  assumes "t_graph t = g_id (forward_graph gg)" and "skip_identities t = Inr u"
    and "map_of (indirect_captures gg) u = Some c"
    and "map_of (inner_to_outer_tensor gg) u = Some outer"
    and "map_of (fg_captures gg) outer = Some ph"
  shows "grad_capture_helper gg t = Inr (gg, c)"
  using assms map_of_in_external[OF assms(5)]
  by (simp add: grad_capture_helper_def capture_helper_known)

lemma tensor_list_pop_back_result:
  fixes gg :: grad_func_graph
  assumes "tensor_list_pop_back gg h d = (gg', ntl, cap)"
  shows "gg' = gg\<lparr>g_operations := g_operations gg @ [t_op cap], g_next := Suc (g_next gg)\<rparr>
       \<and> op_type (t_op cap) = ''TensorListPopBack'' \<and> op_inputs (t_op cap) = [h]
       \<and> value_index cap = 1 \<and> t_dtype cap = d
       \<and> ntl = Tensor (t_op cap) 0 DT_VARIANT (Some [])"
  using assms by (auto simp: tensor_list_pop_back_def create_op_def Let_def)

lemma resource_index_cases:
  assumes "resource_index fwd u = Inr index"
  shows "index < length (fg_inputs fwd)
       \<and> (u = fg_inputs fwd ! index
          \<or> (u \<notin> set (fg_inputs fwd) \<and> op_type (t_op u) = ''While''
              \<and> value_index u < length (op_inputs (t_op u))
              \<and> op_inputs (t_op u) ! value_index u = fg_inputs fwd ! index))"
proof (cases "index_of (fg_inputs fwd) u")
  case (Some i)
  with assms index_of_Some_less[OF Some] show ?thesis by (simp add: resource_index_def)
next
  case None
  then have n: "u \<notin> set (fg_inputs fwd)" by (simp add: index_of_None_iff)
  from None assms have w: "op_type (t_op u) = ''While''"
    "value_index u < length (op_inputs (t_op u))"
    by (auto simp: resource_index_def split: if_splits)
  with None assms have "index_of (fg_inputs fwd) (op_inputs (t_op u) ! value_index u) = Some index"
    by (auto simp: resource_index_def split: option.splits)
  from index_of_Some_less[OF this] n w show ?thesis by simp
qed

lemma grad_capture_helper_resource:
  assumes fwd: "t_graph t = g_id (forward_graph gg)" and skip: "skip_identities t = Inr u"
    and nc: "map_of (indirect_captures gg) u = None" and res: "t_dtype u = DT_RESOURCE"
    and out: "forward_inputs_outside gg"
    and first: "grad_capture_helper gg t = Inr (gg', c)"
  shows "\<exists>index. resource_index (forward_graph gg) u = Inr index
           \<and> index < length (fg_outputs (forward_graph gg))
           \<and> fg_inputs (forward_graph gg) ! index = fg_outputs (forward_graph gg) ! index
           \<and> index < length (op_inputs (forward_while gg))
           \<and> forward_graph gg' = forward_graph gg \<and> forward_while gg' = forward_while gg
           \<and> g_id gg' = g_id gg
           \<and> map_of (indirect_captures gg') u = Some c
           \<and> map_of (inner_to_outer_tensor gg') u = Some (op_inputs (forward_while gg) ! index)
           \<and> map_of (fg_captures gg') (op_inputs (forward_while gg) ! index) = Some c"
proof -
  note f = first[unfolded grad_capture_helper_def]
  obtain index where ri: "resource_index (forward_graph gg) u = Inr index"
    using f fwd skip nc res by (cases "resource_index (forward_graph gg) u") simp_all
  have i1: "index < length (fg_outputs (forward_graph gg))"
    using f fwd skip nc res ri by (auto split: if_splits)
  have i2: "fg_inputs (forward_graph gg) ! index = fg_outputs (forward_graph gg) ! index"
    using f fwd skip nc res ri i1 by (auto split: if_splits)
  have i3: "index < length (op_inputs (forward_while gg))"
    using f fwd skip nc res ri i1 i2 by (auto split: if_splits)
  let ?o = "op_inputs (forward_while gg) ! index"
  let ?gg1 = "gg\<lparr>inner_to_outer_tensor := AList.update u ?o (inner_to_outer_tensor gg)\<rparr>"
  from i3 out have og: "t_graph ?o \<noteq> g_id gg" "t_graph ?o \<noteq> g_id (forward_graph gg)"
    by (auto simp: forward_inputs_outside_def)
  obtain gg2 ph where ch: "capture_helper ?gg1 ?o = (gg2, ph)"
    by (cases "capture_helper ?gg1 ?o")
  from f fwd skip nc res ri i1 i2 i3 og ch
  have r: "gg' = gg2\<lparr>indirect_captures := AList.update u ph (indirect_captures gg2)\<rparr>" "c = ph"
    by (auto simp: Let_def)
  note fl = capture_helper_grad_fields[OF ch] and cr = capture_helper_result[OF ch]
  have "map_of (indirect_captures gg') u = Some c" by (simp add: r update_conv')
  moreover have "map_of (inner_to_outer_tensor gg') u = Some ?o"
    using fl by (simp add: r update_conv')
  moreover have "map_of (fg_captures gg') ?o = Some c" using cr by (simp add: r)
  moreover have "forward_graph gg' = forward_graph gg" "forward_while gg' = forward_while gg"
    "g_id gg' = g_id gg"
    using fl cr by (simp_all add: r)
  ultimately show ?thesis using ri i1 i2 i3 by blast
qed


lemma grad_capture_helper_accumulator:
  assumes fwd: "t_graph t = g_id (forward_graph gg)" and skip: "skip_identities t = Inr u"
    and nc: "map_of (indirect_captures gg) u = None" and res: "t_dtype u \<noteq> DT_RESOURCE"
    and first: "grad_capture_helper gg t = Inr (gg', c)"
  shows "\<exists>acc index aph.
           get_accumulator (forward_graph gg) u = Inr (Some acc)
           \<and> index_of (fg_outputs (forward_graph gg)) acc = Some index
           \<and> index < length (op_outputs (forward_while gg))
           \<and> forward_graph gg' = forward_graph gg \<and> forward_while gg' = forward_while gg
           \<and> g_id gg' = g_id gg
           \<and> map_of (indirect_captures gg') u = Some c
           \<and> map_of (inner_to_outer_tensor gg') u = Some (op_outputs (forward_while gg) ! index)
           \<and> map_of (fg_captures gg') (op_outputs (forward_while gg) ! index) = Some aph
           \<and> op_type (t_op c) = ''TensorListPopBack'' \<and> op_inputs (t_op c) = [aph]
           \<and> value_index c = 1
           \<and> map_of (popped_tensor_lists gg') aph = Some (Tensor (t_op c) 0 DT_VARIANT (Some []))
           \<and> g_operations gg' = g_operations (fst (capture_helper gg (op_outputs (forward_while gg) ! index))) @ [t_op c]"
proof -
  note f = first[unfolded grad_capture_helper_def]
  have nk: "u \<notin> fst ` set (inner_to_outer_tensor gg)"
    using f fwd skip nc res by (auto split: if_splits)
  obtain acc where ga: "get_accumulator (forward_graph gg) u = Inr (Some acc)"
    using f fwd skip nc res nk
    by (cases "get_accumulator (forward_graph gg) u") (auto split: option.splits)
  have ag: "t_graph acc = g_id (forward_graph gg)"
    using f fwd skip nc res nk ga by (auto split: if_splits)
  obtain index where ix: "index_of (fg_outputs (forward_graph gg)) acc = Some index"
    using f fwd skip nc res nk ga ag
    by (cases "index_of (fg_outputs (forward_graph gg)) acc") auto
  have i1: "index < length (op_outputs (forward_while gg))"
    using f fwd skip nc res nk ga ag ix by (auto split: if_splits)
  let ?o = "op_outputs (forward_while gg) ! index"
  have og: "t_graph ?o = forward_outer_graph gg"
    using f fwd skip nc res nk ga ag ix i1 by (auto simp: Let_def split: if_splits)
  let ?gg1 = "gg\<lparr>inner_to_outer_tensor := AList.update u ?o (inner_to_outer_tensor gg)\<rparr>"
  obtain gg2 aph where ch: "capture_helper ?gg1 ?o = (gg2, aph)"
    by (cases "capture_helper ?gg1 ?o")
  obtain gg3 ntl cap where pb: "tensor_list_pop_back gg2 aph (t_dtype u) = (gg3, ntl, cap)"
    by (cases "tensor_list_pop_back gg2 aph (t_dtype u)")
  from f fwd skip nc res nk ga ag ix i1 og ch pb
  have r: "gg' = gg3\<lparr>indirect_captures := AList.update u cap (indirect_captures gg3),
                       popped_tensor_lists := AList.update aph ntl (popped_tensor_lists gg3)\<rparr>"
    "c = cap"
    by (auto simp: Let_def)
  note fl = capture_helper_grad_fields[OF ch] and cr = capture_helper_result[OF ch]
    and pr = tensor_list_pop_back_result[OF pb]
  from pr have g3: "gg3 = gg2\<lparr>g_operations := g_operations gg2 @ [t_op cap],
                               g_next := Suc (g_next gg2)\<rparr>" by blast
  have "map_of (indirect_captures gg') u = Some c" by (simp add: r update_conv')
  moreover have "map_of (inner_to_outer_tensor gg') u = Some ?o"
    using fl by (simp add: r g3 update_conv')
  moreover have "map_of (fg_captures gg') ?o = Some aph" using cr by (simp add: r g3)
  moreover have "forward_graph gg' = forward_graph gg" "forward_while gg' = forward_while gg"
    "g_id gg' = g_id gg"
    using fl cr by (simp_all add: r g3)
  moreover have "op_type (t_op c) = ''TensorListPopBack''" "op_inputs (t_op c) = [aph]"
    "value_index c = 1" using pr r(2) by simp_all
  moreover have "map_of (popped_tensor_lists gg') aph = Some (Tensor (t_op c) 0 DT_VARIANT (Some []))"
    using pr by (simp add: r update_conv')
  moreover have "g_operations gg2 = g_operations (fst (capture_helper gg ?o))"
    using ch by (cases "map_of (fg_captures gg) ?o")
      (auto simp: capture_helper_def create_op_def Let_def)
  then have "g_operations gg' = g_operations (fst (capture_helper gg ?o)) @ [t_op c]"
    by (simp add: r g3)
  ultimately show ?thesis using ga ix i1 by blast
qed

lemma grad_capture_helper_outside:
  assumes "t_graph t \<noteq> g_id (forward_graph gg)" and "grad_capture_helper gg t = Inr (gg', c)"
  shows "capture_helper gg t = (gg', c)"
  using assms by (simp add: grad_capture_helper_def)

lemma resource_created:
  assumes "t_graph t = g_id (forward_graph gg)" and "skip_identities t = Inr u"
    and "map_of (indirect_captures gg) u = None" and "t_dtype u = DT_RESOURCE"
    and "u \<notin> set (fg_inputs (forward_graph gg))" and "op_type (t_op u) \<noteq> ''While''"
  shows "grad_capture_helper gg t = Inl (ResourceCreated u)"
  using assms
  by (simp add: grad_capture_helper_def resource_index_def index_of_None_iff[THEN iffD2])

lemma resource_not_invariant:
  assumes "t_graph t = g_id (forward_graph gg)" and "skip_identities t = Inr u"
    and "map_of (indirect_captures gg) u = None" and "t_dtype u = DT_RESOURCE"
    and "resource_index (forward_graph gg) u = Inr index"
    and "index < length (fg_outputs (forward_graph gg))"
    and "fg_inputs (forward_graph gg) ! index \<noteq> fg_outputs (forward_graph gg) ! index"
  shows "grad_capture_helper gg t = Inl (NotLoopInvariant u)"
  using assms by (simp add: grad_capture_helper_def)

lemma resolved_is_cached:
  assumes out: "forward_inputs_outside gg"
    and first: "grad_capture_helper gg t = Inr (gg', c)"
    and fwd: "t_graph t = g_id (forward_graph gg)"
  shows "\<exists>u outer ph. skip_identities t = Inr u \<and> forward_graph gg' = forward_graph gg
           \<and> map_of (indirect_captures gg') u = Some c
           \<and> map_of (inner_to_outer_tensor gg') u = Some outer
           \<and> map_of (fg_captures gg') outer = Some ph"
proof -
  obtain u where skip: "skip_identities t = Inr u"
    using first fwd by (cases "skip_identities t") (simp_all add: grad_capture_helper_def)
  show ?thesis
  proof (cases "map_of (indirect_captures gg) u")
    case (Some c0)
    note f = first[unfolded grad_capture_helper_def]
    obtain outer where io: "map_of (inner_to_outer_tensor gg) u = Some outer"
      using f fwd skip Some by (cases "map_of (inner_to_outer_tensor gg) u") simp_all
    have mem: "outer \<in> set (external_captures gg)"
      using f fwd skip Some io by (auto split: if_splits)
    then obtain ph where ph: "map_of (fg_captures gg) outer = Some ph"
      by (cases "map_of (fg_captures gg) outer") (auto simp: map_of_None_external)
    from f fwd skip Some io mem ph have "gg' = gg" "c = c0"
      by (auto simp: capture_helper_known)
    with skip Some io ph show ?thesis by blast
  next
    case None
    show ?thesis
    proof (cases "t_dtype u = DT_RESOURCE")
      case True
      from grad_capture_helper_resource[OF fwd skip None True out first] skip
      show ?thesis by blast
    next
      case False
      from grad_capture_helper_accumulator[OF fwd skip None False first] skip
      show ?thesis by blast
    qed
  qed
qed

subsection \<open>The cache of the resolver survives further construction steps\<close>

lemma capture_helper_keeps:
  "capture_helper fg t = (fg', c) \<Longrightarrow> map_of (fg_captures fg) k = Some v
     \<Longrightarrow> map_of (fg_captures fg') k = Some v"
  by (cases "map_of (fg_captures fg) t")
    (auto simp: capture_helper_def create_op_def Let_def map_add_Some_iff)

lemma update_other: "k \<noteq> k' \<Longrightarrow> map_of (AList.update k' v' xs) k = map_of xs k"
  by (simp add: update_conv')

lemma grad_capture_helper_frame:
  assumes out: "forward_inputs_outside gg"
    and step: "grad_capture_helper gg t = Inr (gg', c')"
  shows "forward_graph gg' = forward_graph gg \<and> forward_while gg' = forward_while gg
       \<and> g_id gg' = g_id gg
       \<and> (\<forall>k v. map_of (fg_captures gg) k = Some v \<longrightarrow> map_of (fg_captures gg') k = Some v)
       \<and> (\<forall>u c outer ph. cache_entry gg u c outer ph \<longrightarrow> cache_entry gg' u c outer ph)"
proof (cases "t_graph t = g_id (forward_graph gg)")
  case False
  note ch = grad_capture_helper_outside[OF False step]
  from capture_helper_grad_fields[OF ch] capture_helper_result[OF ch] capture_helper_keeps[OF ch]
  show ?thesis by (auto simp: cache_entry_def)
next
  case fwd: True
  obtain u' where skip: "skip_identities t = Inr u'"
    using step fwd by (cases "skip_identities t") (simp_all add: grad_capture_helper_def)
  show ?thesis
  proof (cases "map_of (indirect_captures gg) u'")
    case (Some c0)
    note f = step[unfolded grad_capture_helper_def]
    obtain outer where io: "map_of (inner_to_outer_tensor gg) u' = Some outer"
      using f fwd skip Some by (cases "map_of (inner_to_outer_tensor gg) u'") simp_all
    have mem: "outer \<in> set (external_captures gg)"
      using f fwd skip Some io by (auto split: if_splits)
    then obtain ph where ph: "map_of (fg_captures gg) outer = Some ph"
      by (cases "map_of (fg_captures gg) outer") (auto simp: map_of_None_external)
    from f fwd skip Some io mem ph have "gg' = gg"
      by (auto simp: capture_helper_known)
    then show ?thesis by simp
  next
    case None
    show ?thesis
    proof (cases "t_dtype u' = DT_RESOURCE")
      case True
      note f = step[unfolded grad_capture_helper_def]
      obtain index where ri: "resource_index (forward_graph gg) u' = Inr index"
        using f fwd skip None True by (cases "resource_index (forward_graph gg) u'") simp_all
      have i1: "index < length (fg_outputs (forward_graph gg))"
        using f fwd skip None True ri by (auto split: if_splits)
      have i2: "fg_inputs (forward_graph gg) ! index = fg_outputs (forward_graph gg) ! index"
        using f fwd skip None True ri i1 by (auto split: if_splits)
      have i3: "index < length (op_inputs (forward_while gg))"
        using f fwd skip None True ri i1 i2 by (auto split: if_splits)
      let ?o = "op_inputs (forward_while gg) ! index"
      let ?gg1 = "gg\<lparr>inner_to_outer_tensor := AList.update u' ?o (inner_to_outer_tensor gg)\<rparr>"
      from i3 out have og: "t_graph ?o \<noteq> g_id gg" "t_graph ?o \<noteq> g_id (forward_graph gg)"
        by (auto simp: forward_inputs_outside_def)
      obtain gg2 ph where ch: "capture_helper ?gg1 ?o = (gg2, ph)"
        by (cases "capture_helper ?gg1 ?o")
      from f fwd skip None True ri i1 i2 i3 og ch
      have r: "gg' = gg2\<lparr>indirect_captures := AList.update u' ph (indirect_captures gg2)\<rparr>"
        by (auto simp: Let_def)
      note fl = capture_helper_grad_fields[OF ch] and cr = capture_helper_result[OF ch]
        and ck = capture_helper_keeps[OF ch]
      have "cache_entry gg' u c outer ph'" if e: "cache_entry gg u c outer ph'" for u c outer ph'
      proof -
        from e None have ne: "u \<noteq> u'" by (auto simp: cache_entry_def)
        from e ck[of outer ph'] have "map_of (fg_captures gg2) outer = Some ph'"
          by (simp add: cache_entry_def)
        with e ne fl show ?thesis by (simp add: cache_entry_def r update_other)
      qed
      moreover have "map_of (fg_captures gg') k = Some v" if "map_of (fg_captures gg) k = Some v" for k v
        using that ck[of k v] by (simp add: r)
      ultimately show ?thesis using fl cr by (simp add: r)
    next
      case False
      note f = step[unfolded grad_capture_helper_def]
      have nk: "u' \<notin> fst ` set (inner_to_outer_tensor gg)"
        using f fwd skip None False by (auto split: if_splits)
      obtain acc where ga: "get_accumulator (forward_graph gg) u' = Inr (Some acc)"
        using f fwd skip None False nk
        by (cases "get_accumulator (forward_graph gg) u'") (auto split: option.splits)
      have ag: "t_graph acc = g_id (forward_graph gg)"
        using f fwd skip None False nk ga by (auto split: if_splits)
      obtain index where ix: "index_of (fg_outputs (forward_graph gg)) acc = Some index"
        using f fwd skip None False nk ga ag
        by (cases "index_of (fg_outputs (forward_graph gg)) acc") auto
      have i1: "index < length (op_outputs (forward_while gg))"
        using f fwd skip None False nk ga ag ix by (auto split: if_splits)
      let ?o = "op_outputs (forward_while gg) ! index"
      have og: "t_graph ?o = forward_outer_graph gg"
        using f fwd skip None False nk ga ag ix i1 by (auto simp: Let_def split: if_splits)
      let ?gg1 = "gg\<lparr>inner_to_outer_tensor := AList.update u' ?o (inner_to_outer_tensor gg)\<rparr>"
      obtain gg2 aph where ch: "capture_helper ?gg1 ?o = (gg2, aph)"
        by (cases "capture_helper ?gg1 ?o")
      obtain gg3 ntl cap where pb: "tensor_list_pop_back gg2 aph (t_dtype u') = (gg3, ntl, cap)"
        by (cases "tensor_list_pop_back gg2 aph (t_dtype u')")
      from f fwd skip None False nk ga ag ix i1 og ch pb
      have r: "gg' = gg3\<lparr>indirect_captures := AList.update u' cap (indirect_captures gg3),
                       popped_tensor_lists := AList.update aph ntl (popped_tensor_lists gg3)\<rparr>"
        by (auto simp: Let_def)
      note fl = capture_helper_grad_fields[OF ch] and cr = capture_helper_result[OF ch]
        and ck = capture_helper_keeps[OF ch] and pr = tensor_list_pop_back_result[OF pb]
      from pr have g3: "gg3 = gg2\<lparr>g_operations := g_operations gg2 @ [t_op cap],
                               g_next := Suc (g_next gg2)\<rparr>" by blast
      have "cache_entry gg' u c outer ph'" if e: "cache_entry gg u c outer ph'" for u c outer ph'
      proof -
        from e None have ne: "u \<noteq> u'" by (auto simp: cache_entry_def)
        from e ck[of outer ph'] have "map_of (fg_captures gg2) outer = Some ph'"
          by (simp add: cache_entry_def)
        with e ne fl show ?thesis by (simp add: cache_entry_def r g3 update_other)
      qed
      moreover have "map_of (fg_captures gg') k = Some v" if "map_of (fg_captures gg) k = Some v" for k v
        using that ck[of k v] by (simp add: r g3)
      ultimately show ?thesis using fl cr by (simp add: r g3)
    qed
  qed
qed


lemma forward_inputs_outside_cong:
  "forward_inputs_outside gg \<Longrightarrow> forward_while gg' = forward_while gg \<Longrightarrow> g_id gg' = g_id gg
     \<Longrightarrow> forward_graph gg' = forward_graph gg \<Longrightarrow> forward_inputs_outside gg'"
  by (simp add: forward_inputs_outside_def)

lemma grad_capture_frame:
  assumes out: "forward_inputs_outside gg"
    and step: "grad_capture gg t w = Inr (gg', c')"
  shows "same_resolver gg gg'
       \<and> (\<forall>k v. map_of (fg_captures gg) k = Some v \<longrightarrow> map_of (fg_captures gg') k = Some v)
       \<and> (\<forall>u c outer ph. cache_entry gg u c outer ph \<longrightarrow> cache_entry gg' u c outer ph)"
proof (cases "t_graph t \<noteq> g_id gg")
  case True
  with step have "grad_capture_helper gg t = Inr (gg', c')"
    by (auto simp: grad_capture_def split: if_splits)
  from grad_capture_helper_frame[OF out this] show ?thesis by (simp add: same_resolver_def)
next
  case False
  with step have "gg' = gg" by (auto simp: grad_capture_def split: if_splits)
  then show ?thesis by (simp add: same_resolver_def)
qed

lemma same_resolver_outside:
  "forward_inputs_outside gg \<Longrightarrow> same_resolver gg gg' \<Longrightarrow> forward_inputs_outside gg'"
  by (simp add: same_resolver_def forward_inputs_outside_def)

lemma same_resolver_trans: "same_resolver a b \<Longrightarrow> same_resolver b c \<Longrightarrow> same_resolver a c"
  by (simp add: same_resolver_def)

lemma grad_capture_all_frame:
  "forward_inputs_outside gg \<Longrightarrow> grad_capture_all gg ts = Inr (gg', ts') \<Longrightarrow>
     same_resolver gg gg'
     \<and> (\<forall>k v. map_of (fg_captures gg) k = Some v \<longrightarrow> map_of (fg_captures gg') k = Some v)
     \<and> (\<forall>u c outer ph. cache_entry gg u c outer ph \<longrightarrow> cache_entry gg' u c outer ph)"
proof (induction ts arbitrary: gg ts')
  case Nil
  then show ?case by (simp add: same_resolver_def)
next
  case (Cons t ts)
  from Cons.prems(2) obtain gg1 t' where g1: "grad_capture gg t False = Inr (gg1, t')"
    by (cases "grad_capture gg t False") auto
  with Cons.prems(2) obtain ts2 where g2: "grad_capture_all gg1 ts = Inr (gg', ts2)"
    by (cases "grad_capture_all gg1 ts") auto
  note a = grad_capture_frame[OF Cons.prems(1) g1]
  from a Cons.prems(1) have o1: "forward_inputs_outside gg1" by (auto intro: same_resolver_outside)
  note b = Cons.IH[OF o1 g2]
  from a b show ?case by (auto intro: same_resolver_trans)
qed

lemma create_op_frame:
  fixes gg :: grad_func_graph
  shows "same_resolver gg (fst (create_op gg ty ins outs))"
    and "fg_captures (fst (create_op gg ty ins outs)) = fg_captures gg"
    and "cache_entry (fst (create_op gg ty ins outs)) u c outer ph = cache_entry gg u c outer ph"
  by (simp_all add: create_op_def same_resolver_def cache_entry_def Let_def)

lemma apply_step_frame:
  assumes "forward_inputs_outside gg" and "apply_step gg step = Inr gg'"
  shows "same_resolver gg gg'
     \<and> (\<forall>k v. map_of (fg_captures gg) k = Some v \<longrightarrow> map_of (fg_captures gg') k = Some v)
     \<and> (\<forall>u c outer ph. cache_entry gg u c outer ph \<longrightarrow> cache_entry gg' u c outer ph)"
proof (cases step)
  case (Reference t w)
  with assms(2) obtain c' where "grad_capture gg t w = Inr (gg', c')"
    by (cases "grad_capture gg t w") auto
  from grad_capture_frame[OF assms(1) this] show ?thesis .
next
  case (NewOperation ty ins outs)
  with assms(2) obtain gg1 ins' where c: "grad_capture_all gg ins = Inr (gg1, ins')"
    and g: "gg' = fst (create_op gg1 ty ins' outs)"
    by (cases "grad_capture_all gg ins") auto
  note a = grad_capture_all_frame[OF assms(1) c]
  from a create_op_frame[of gg1 ty ins' outs] show ?thesis
    unfolding g by (auto intro: same_resolver_trans)
qed

lemma build_steps_frame:
  "forward_inputs_outside gg \<Longrightarrow> build_steps gg steps = Inr gg' \<Longrightarrow>
     same_resolver gg gg'
     \<and> (\<forall>k v. map_of (fg_captures gg) k = Some v \<longrightarrow> map_of (fg_captures gg') k = Some v)
     \<and> (\<forall>u c outer ph. cache_entry gg u c outer ph \<longrightarrow> cache_entry gg' u c outer ph)"
proof (induction steps arbitrary: gg)
  case Nil
  then show ?case by (simp add: same_resolver_def)
next
  case (Cons step steps)
  from Cons.prems(2) obtain gg1 where s: "apply_step gg step = Inr gg1"
    and r: "build_steps gg1 steps = Inr gg'"
    by (cases "apply_step gg step") auto
  note a = apply_step_frame[OF Cons.prems(1) s]
  from a Cons.prems(1) have "forward_inputs_outside gg1" by (auto intro: same_resolver_outside)
  from Cons.IH[OF this r] a show ?case by (auto intro: same_resolver_trans)
qed

lemma cache_entry_hit:
  "t_graph t = g_id (forward_graph gg) \<Longrightarrow> skip_identities t = Inr u
     \<Longrightarrow> cache_entry gg u c outer ph \<Longrightarrow> grad_capture_helper gg t = Inr (gg, c)"
  using grad_capture_helper_cached[of t gg u c outer ph] by (simp add: cache_entry_def)

section \<open>The claims\<close>

subsection \<open>C1: the structure of the value returned by the forward assembler\<close>




subsection \<open>C2: the backward loop runs as often as the forward loop\<close>



subsection \<open>C3: one gradient per forward input, padded with \<^verbatim>\<open>None\<close>\<close>

text \<open>
  C3, as stated: the returned gradient is \<^verbatim>\<open>None\<close> exactly where the incoming gradient
  was absent. This fails where a forward output is a TensorArray handle: lines 258-261
  drop its incoming gradient, so \<^verbatim>\<open>None\<close> is returned although a gradient was supplied.
\<close>

theorem while_grad_supplied_gradient_counterexample:
  "WhileGrad ex_maybe_captured ex_is_trainable ex_build_grad 4 ex_grad_outer ex_body_ta
     ex_while ex_incoming_grads = Inr ex_while_grad_result
   \<and> ex_incoming_grads ! 2 = Some (outer_const 4)
   \<and> wg_grads ex_while_grad_result ! 2 = None"
  by code_simp

text \<open>
  C3, amended: when the gradient assembler returns, it returns one value per forward
  input; the value at an index is \<^verbatim>\<open>None\<close> exactly when the incoming gradient at that
  index was absent or the forward output at that index is a TensorArray handle; and the
  values that are present are, in order, outputs 2, 3, ... of the backward operator.
\<close>

theorem while_grad_none_padding:
  assumes "WhileGrad mc is_trainable build_grad cond_id g body_g while_op grads = Inr res"
    and "length grads = length (op_outputs while_op)"
    and "length (op_inputs while_op) = length (op_outputs while_op)"
  shows "length (wg_grads res) = length (op_inputs while_op)
       \<and> (\<forall>i < length (wg_grads res).
             wg_grads res ! i = None \<longleftrightarrow>
               (grads ! i = None
                \<or> is_tensor_array_handle mc (op_outputs while_op ! i) = Inr True))
       \<and> map the (filter (\<lambda>x. x \<noteq> None) (wg_grads res))
           = take (length (filter (\<lambda>x. x \<noteq> None) (wg_grads res))) (drop 2 (wg_outputs res))"
proof -
  from WhileGrad_Inr[OF assms(1)] obtain masked where
    m: "mask_tensor_array_grads mc grads (op_outputs while_op) = Inr masked"
    and p: "none_pad masked (wg_outputs res) 2 = Inr (wg_grads res)"
    by blast
  from mask_tensor_array_grads_length[OF m] assms(2)
  have lm: "length masked = length (op_outputs while_op)" by simp
  from none_pad_length[OF p] lm assms(3)
  have l: "length (wg_grads res) = length (op_inputs while_op)" by simp
  have n: "\<forall>i < length (wg_grads res).
             wg_grads res ! i = None \<longleftrightarrow>
               (grads ! i = None
                \<or> is_tensor_array_handle mc (op_outputs while_op ! i) = Inr True)"
  proof (intro allI impI)
    fix i assume "i < length (wg_grads res)"
    with none_pad_length[OF p] have i: "i < length masked" by simp
    note b = mask_tensor_array_grads_nth[OF m i]
    from none_pad_None[OF p i] b
    show "wg_grads res ! i = None \<longleftrightarrow>
               (grads ! i = None
                \<or> is_tensor_array_handle mc (op_outputs while_op ! i) = Inr True)"
      by auto
  qed
  from l n none_pad_order[OF p] show ?thesis by blast
qed

theorem while_grad_none_padding_witness:
  "WhileGrad ex_maybe_captured ex_is_trainable ex_build_grad 4 ex_grad_outer ex_body_ta
     ex_while ex_incoming_grads = Inr ex_while_grad_result
   \<and> length ex_incoming_grads = length (op_outputs ex_while)
   \<and> length (op_inputs ex_while) = length (op_outputs ex_while)
   \<and> length (wg_grads ex_while_grad_result) = 3
   \<and> map the (filter (\<lambda>x. x \<noteq> None) (wg_grads ex_while_grad_result))
       = take 2 (drop 2 (wg_outputs ex_while_grad_result))"
proof -
  have h: "WhileGrad ex_maybe_captured ex_is_trainable ex_build_grad 4 ex_grad_outer ex_body_ta
     ex_while ex_incoming_grads = Inr ex_while_grad_result"
    "length ex_incoming_grads = length (op_outputs ex_while)"
    "length (op_inputs ex_while) = length (op_outputs ex_while)"
    by code_simp+
  have e: "length (op_inputs ex_while) = 3"
    "length (filter (\<lambda>x. x \<noteq> None) (wg_grads ex_while_grad_result)) = 2"
    by code_simp+
  from while_grad_none_padding [OF h] h e show ?thesis by simp
qed

subsection \<open>C4: a value captured by both closures\<close>

text \<open>
  C4: when the same external value is captured by the condition and by the body, forward
  assembly (lines 164-245) fails at the assertion of lines 179-182, with the error that
  names a shared value; it never returns a result. The external captures of a
  sub-program are the keys of a dictionary, hence distinct.
\<close>

theorem shared_capture_is_fatal:
  assumes "t \<in> set (external_captures (body_graph st))"
    and "t \<in> set (external_captures (cond_graph st))"
    and "distinct (external_captures (body_graph st))"
  shows "\<exists>t'. while_loop_assemble orig_loop_vars shape_invariants st = Inl (CaptureAmbiguity t')
           \<and> t' \<in> set (external_captures (body_graph st))
           \<and> t' \<in> set (external_captures (cond_graph st))"
proof -
  let ?st1 = "add_body_captures st"
  have e: "external_captures (body_graph ?st1) = external_captures (body_graph st)"
    "cond_graph ?st1 = cond_graph st"
    by (simp_all add: add_body_captures_def external_captures_def)
  from reconcile_captures_shared[OF assms(1,2,3)] obtain t' where
    "reconcile_captures (cond_graph st) (external_captures (body_graph st)) = Inl (CaptureAmbiguity t')"
    "t' \<in> set (external_captures (body_graph st))" "t' \<in> set (external_captures (cond_graph st))"
    by blast
  then show ?thesis by (auto simp: while_loop_assemble_def Let_def e)
qed

theorem shared_capture_is_fatal_witness:
  "outer_const 5 \<in> set (external_captures (body_graph ex_assembly_shared))
   \<and> outer_const 5 \<in> set (external_captures (cond_graph ex_assembly_shared))
   \<and> distinct (external_captures (body_graph ex_assembly_shared))
   \<and> while_loop_assemble [Leaf (LTensor (outer_const 1))] [Leaf (Some []), Leaf (Some [])]
        ex_assembly_shared = Inl (CaptureAmbiguity (outer_const 5))"
proof -
  have h: "outer_const 5 \<in> set (external_captures (body_graph ex_assembly_shared))"
    "outer_const 5 \<in> set (external_captures (cond_graph ex_assembly_shared))"
    "distinct (external_captures (body_graph ex_assembly_shared))"
    by (simp_all add: ex_assembly_shared_def ex_body_capturing_def ex_cond_capturing_def
        external_captures_def)
  have "set (external_captures (body_graph ex_assembly_shared)) = {outer_const 5}"
    by (simp add: ex_assembly_shared_def ex_body_capturing_def external_captures_def)
  with shared_capture_is_fatal [OF h, of "[Leaf (LTensor (outer_const 1))]"
      "[Leaf (Some []), Leaf (Some [])]"] h
  show ?thesis by auto
qed

subsection \<open>C5: shape validation of the loop-carried outputs\<close>



subsection \<open>C6: what the Accumulation Manager selects\<close>

text \<open>
  C6 fails where the lookup of an existing accumulator reads \<^verbatim>\<open>t.consumers()[0]\<close> (line
  508), against the docstring of \<^verbatim>\<open>get_func_graph_output\<close> (``Returns t or Identity(t)
  whichever exists in graph outputs else None''). When the appended list of a
  \<^verbatim>\<open>TensorListPushBack\<close> is neither an output nor read by any operation, the lookup
  raises: the manager selects nothing and forward assembly fails. When the \<^verbatim>\<open>Identity\<close>
  that exports the appended list is not its first consumer, the lookup finds no
  accumulator although one exists, and the manager creates a second accumulator for the
  value.
\<close>

theorem accumulator_lookup_first_consumer:
  "consumers ex_body_dropped_append ex_appended = []
   \<and> ex_appended \<notin> set (fg_outputs ex_body_dropped_append)
   \<and> get_func_graph_output ex_body_dropped_append ex_appended = Inl IndexError
   \<and> get_intermediates ex_body_dropped_append = Inl IndexError
   \<and> accumulation_manager (ex_assembly_with_list ex_body_dropped_append) = Inl IndexError
   \<and> while_loop (\<lambda>loop_vars signature. Inr ex_cond3)
        (\<lambda>loop_vars signature. Inr ex_body_dropped_append)
        ex_outer_with_list ex_loop_vars_with_list None = Inl IndexError
   \<and> map op_type (consumers ex_body_identity_second ex_appended)
       = [''TensorListLength'', ''Identity'']
   \<and> op_outputs (consumers ex_body_identity_second ex_appended ! 1) = [ex_returned 8]
   \<and> index_of (fg_inputs ex_body_identity_second) ex_list = Some 2
   \<and> index_of (fg_outputs ex_body_identity_second) (ex_returned 8) = Some 2
   \<and> get_func_graph_output ex_body_identity_second ex_appended = Inr None
   \<and> get_accumulator ex_body_identity_second ex_sq = Inr None
   \<and> accumulation_manager (ex_assembly_with_list ex_body_identity_second)
       = Inr ex_accumulated_twice_for_sq
   \<and> map op_type (consumers (body_graph ex_accumulated_twice_for_sq) ex_sq)
       = [''TensorListPushBack'', ''TensorListPushBack'']"
  by code_simp

subsection \<open>C7: values that already have an accumulator\<close>

text \<open>
  C7, as stated: running the Accumulation Manager over a body in which a candidate already
  has an accumulator leaves the output count unchanged. This fails: in the body below
  every candidate has an accumulator after a first run (6 outputs), and a second run
  selects the appended lists of the first run and grows the outputs to 10.
\<close>

theorem accumulation_not_idempotent_counterexample:
  "accumulation_manager ex_assembly = Inr ex_accumulated
   \<and> get_accumulator (body_graph ex_accumulated) ex_y = Inr (Some (ex_push 11 ex_y))
   \<and> length (fg_outputs (body_graph ex_accumulated)) = 6
   \<and> accumulation_manager ex_accumulated = Inr ex_accumulated_twice
   \<and> length (fg_outputs (body_graph ex_accumulated_twice)) = 10"
  by code_simp

text \<open>
  C7, amended: a value that already has an accumulator is never selected when the manager
  returns, so no second accumulator is created for it. A value has an accumulator when
  one of its consumers is a \<^verbatim>\<open>TensorListPushBack\<close> whose list argument is an input of the
  sub-program and whose appended list, or the \<^verbatim>\<open>Identity\<close> that is the only consumer of
  the appended list, is an output of the sub-program at the same index (the first index of
  each). Whatever the manager detects as an accumulator is such a consumer, with the
  \<^verbatim>\<open>Identity\<close> as the first consumer of the appended list. Each value the manager has
  accumulated has an accumulator afterwards (when the body had as many inputs as outputs)
  and is not selected by a further run. Other values, among them the appended lists
  themselves, can still be selected, so the output count can grow.
\<close>

theorem accumulated_candidate_not_selected_again:
  assumes "wf_assembly st"
    and "length (fg_inputs (body_graph st)) = length (fg_outputs (body_graph st))"
    and "accumulation_manager st = Inr st'"
  shows "(has_accumulator fg t \<longrightarrow> get_intermediates fg = Inr xs \<longrightarrow> t \<notin> set xs)
       \<and> (get_accumulator fg t = Inr (Some a) \<longrightarrow>
            (\<exists>consumer input_tl ins output_tl outs index.
                consumer \<in> set (consumers fg t) \<and> op_type consumer = ''TensorListPushBack''
                \<and> op_inputs consumer = input_tl # ins \<and> op_outputs consumer = output_tl # outs
                \<and> get_func_graph_output fg output_tl = Inr (Some a)
                \<and> index_of (fg_inputs fg) input_tl = Some index
                \<and> index_of (fg_outputs fg) a = Some index))
       \<and> (\<exists>ts. get_intermediates (body_graph st) = Inr ts
             \<and> (\<forall>t \<in> set ts. has_accumulator (body_graph st') t
                                \<and> (\<exists>a. get_accumulator (body_graph st') t = Inr (Some a)))
             \<and> (\<forall>ts2. get_intermediates (body_graph st') = Inr ts2 \<longrightarrow> set ts \<inter> set ts2 = {}))"
proof (intro conjI)
  show "has_accumulator fg t \<longrightarrow> get_intermediates fg = Inr xs \<longrightarrow> t \<notin> set xs"
    by (auto dest: has_accumulator_not_selected)
next
  show "get_accumulator fg t = Inr (Some a) \<longrightarrow>
            (\<exists>consumer input_tl ins output_tl outs index.
                consumer \<in> set (consumers fg t) \<and> op_type consumer = ''TensorListPushBack''
                \<and> op_inputs consumer = input_tl # ins \<and> op_outputs consumer = output_tl # outs
                \<and> get_func_graph_output fg output_tl = Inr (Some a)
                \<and> index_of (fg_inputs fg) input_tl = Some index
                \<and> index_of (fg_outputs fg) a = Some index)"
    unfolding get_accumulator_def by (intro impI) (rule get_accumulator_loop_Some)
next
  from assms(3) obtain ts where ts: "get_intermediates (body_graph st) = Inr ts"
    and st': "st' = accumulate_all st ts"
    by (auto simp: accumulation_manager_def split: sum.splits)
  note v = get_intermediates_valid[OF assms(1) ts]
  from v(2) have "\<forall>t \<in> set ts. \<exists>r. get_accumulator (body_graph st) t = Inr r" by blast
  from accumulate_all_get_accumulator[OF assms(1) v(1) assms(2) this]
  have acc: "\<forall>t \<in> set ts. \<exists>a. get_accumulator (body_graph st') t = Inr (Some a)"
    unfolding st' .
  from accumulate_all_has_accumulator[OF assms(1) v(1) assms(2)]
  have has: "\<forall>t \<in> set ts. has_accumulator (body_graph st') t"
    unfolding st' .
  have "\<forall>ts2. get_intermediates (body_graph st') = Inr ts2 \<longrightarrow> set ts \<inter> set ts2 = {}"
  proof (intro allI impI)
    fix ts2 assume "get_intermediates (body_graph st') = Inr ts2"
    from has_accumulator_not_selected[OF _ this] has
    show "set ts \<inter> set ts2 = {}" by fastforce
  qed
  with ts acc has show "\<exists>ts. get_intermediates (body_graph st) = Inr ts
             \<and> (\<forall>t \<in> set ts. has_accumulator (body_graph st') t
                                \<and> (\<exists>a. get_accumulator (body_graph st') t = Inr (Some a)))
             \<and> (\<forall>ts2. get_intermediates (body_graph st') = Inr ts2 \<longrightarrow> set ts \<inter> set ts2 = {})"
    by blast
qed

theorem accumulated_candidate_not_selected_again_witness:
  "wf_assembly ex_assembly
   \<and> length (fg_inputs (body_graph ex_assembly)) = length (fg_outputs (body_graph ex_assembly))
   \<and> accumulation_manager ex_assembly = Inr ex_accumulated
   \<and> has_accumulator (body_graph ex_accumulated) ex_y
   \<and> get_accumulator (body_graph ex_accumulated) ex_y = Inr (Some (ex_push 11 ex_y))
   \<and> get_intermediates (body_graph ex_accumulated) = Inr ex_intermediates2
   \<and> ex_y \<notin> set ex_intermediates2
   \<and> has_accumulator ex_body_identity ex_sq
   \<and> get_intermediates ex_body_identity = Inr ex_intermediates_identity
   \<and> ex_sq \<notin> set ex_intermediates_identity"
proof -
  have h: "wf_assembly ex_assembly"
    "length (fg_inputs (body_graph ex_assembly)) = length (fg_outputs (body_graph ex_assembly))"
    "accumulation_manager ex_assembly = Inr ex_accumulated"
    by code_simp+
  have e: "has_accumulator (body_graph ex_accumulated) ex_y"
    "get_accumulator (body_graph ex_accumulated) ex_y = Inr (Some (ex_push 11 ex_y))"
    "get_intermediates (body_graph ex_accumulated) = Inr ex_intermediates2"
    "has_accumulator ex_body_identity ex_sq"
    "get_intermediates ex_body_identity = Inr ex_intermediates_identity"
    by code_simp+
  from accumulated_candidate_not_selected_again [OF h, of "body_graph ex_accumulated" ex_y
      ex_intermediates2 "ex_push 11 ex_y"]
    accumulated_candidate_not_selected_again [OF h, of ex_body_identity ex_sq
      ex_intermediates_identity]
    e h
  show ?thesis by simp
qed

subsection \<open>C8: resource-typed values captured by the backward body\<close>

text \<open>
  C8, as stated: a resource-typed value produced inside the loop body that is not itself
  at the same input and output index of the body is a fatal error. This fails for the
  resource output of a nested \<^verbatim>\<open>While\<close> operator (lines 637-642): it is neither an input
  nor an output of the body, and it is resolved without an error.
\<close>

theorem nested_while_resource_counterexample:
  "t_dtype ex_nested_resource = DT_RESOURCE
   \<and> t_op ex_nested_resource \<in> set (g_operations ex_body_nested)
   \<and> ex_nested_resource \<notin> set (fg_inputs ex_body_nested)
   \<and> ex_nested_resource \<notin> set (fg_outputs ex_body_nested)
   \<and> map_sum id snd (grad_capture_helper (ex_grad_graph_for ex_body_nested ex_while)
                        ex_nested_resource) = Inr ex_resource_ph"
  by code_simp

text \<open>
  C8, amended: a resource-typed forward value (after skipping identities, not resolved
  before) is resolved only if it is an input of the forward body, or the output of a
  nested \<^verbatim>\<open>While\<close> operator whose input at the same position is an input of the
  forward body, and that input is a loop invariant (the same value at the same input and
  output index); it is then resolved to the forward operator's own input at that index,
  captured directly. A resource that is neither an input nor such an output is the fatal
  error for a resource created in the body, and an input that is not a loop invariant is
  a fatal error as well.
\<close>

theorem resource_capture_resolution:
  assumes "t_graph t = g_id (forward_graph gg)" and "skip_identities t = Inr u"
    and "map_of (indirect_captures gg) u = None" and "t_dtype u = DT_RESOURCE"
    and "forward_inputs_outside gg"
  shows "(grad_capture_helper gg t = Inr (gg', c) \<longrightarrow>
           (\<exists>index. index < length (fg_inputs (forward_graph gg))
              \<and> index < length (fg_outputs (forward_graph gg))
              \<and> fg_inputs (forward_graph gg) ! index = fg_outputs (forward_graph gg) ! index
              \<and> (u = fg_inputs (forward_graph gg) ! index
                 \<or> (op_type (t_op u) = ''While''
                     \<and> op_inputs (t_op u) ! value_index u = fg_inputs (forward_graph gg) ! index))
              \<and> index < length (op_inputs (forward_while gg))
              \<and> map_of (inner_to_outer_tensor gg') u = Some (op_inputs (forward_while gg) ! index)
              \<and> map_of (fg_captures gg') (op_inputs (forward_while gg) ! index) = Some c
              \<and> map_of (indirect_captures gg') u = Some c))
       \<and> (u \<notin> set (fg_inputs (forward_graph gg)) \<longrightarrow> op_type (t_op u) \<noteq> ''While'' \<longrightarrow>
            grad_capture_helper gg t = Inl (ResourceCreated u))
       \<and> (resource_index (forward_graph gg) u = Inr i
            \<longrightarrow> i < length (fg_outputs (forward_graph gg))
            \<longrightarrow> fg_inputs (forward_graph gg) ! i \<noteq> fg_outputs (forward_graph gg) ! i
            \<longrightarrow> grad_capture_helper gg t = Inl (NotLoopInvariant u))"
proof (intro conjI impI)
  assume "grad_capture_helper gg t = Inr (gg', c)"
  from grad_capture_helper_resource[OF assms this] obtain index where
    r: "resource_index (forward_graph gg) u = Inr index"
    and rest: "index < length (fg_outputs (forward_graph gg))"
      "fg_inputs (forward_graph gg) ! index = fg_outputs (forward_graph gg) ! index"
      "index < length (op_inputs (forward_while gg))"
      "map_of (indirect_captures gg') u = Some c"
      "map_of (inner_to_outer_tensor gg') u = Some (op_inputs (forward_while gg) ! index)"
      "map_of (fg_captures gg') (op_inputs (forward_while gg) ! index) = Some c"
    by blast
  from resource_index_cases[OF r] rest
  show "\<exists>index. index < length (fg_inputs (forward_graph gg))
              \<and> index < length (fg_outputs (forward_graph gg))
              \<and> fg_inputs (forward_graph gg) ! index = fg_outputs (forward_graph gg) ! index
              \<and> (u = fg_inputs (forward_graph gg) ! index
                 \<or> (op_type (t_op u) = ''While''
                     \<and> op_inputs (t_op u) ! value_index u = fg_inputs (forward_graph gg) ! index))
              \<and> index < length (op_inputs (forward_while gg))
              \<and> map_of (inner_to_outer_tensor gg') u = Some (op_inputs (forward_while gg) ! index)
              \<and> map_of (fg_captures gg') (op_inputs (forward_while gg) ! index) = Some c
              \<and> map_of (indirect_captures gg') u = Some c"
    by blast
next
  assume "u \<notin> set (fg_inputs (forward_graph gg))" "op_type (t_op u) \<noteq> ''While''"
  with assms show "grad_capture_helper gg t = Inl (ResourceCreated u)"
    by (intro resource_created)
next
  assume "resource_index (forward_graph gg) u = Inr i" "i < length (fg_outputs (forward_graph gg))"
    "fg_inputs (forward_graph gg) ! i \<noteq> fg_outputs (forward_graph gg) ! i"
  with assms show "grad_capture_helper gg t = Inl (NotLoopInvariant u)"
    by (intro resource_not_invariant)
qed

theorem resource_capture_resolution_witness:
  "t_graph ex_handle_ph = g_id (forward_graph (ex_grad_graph_for ex_body_ta ex_while))
   \<and> skip_identities ex_handle_ph = Inr ex_handle_ph
   \<and> map_of (indirect_captures (ex_grad_graph_for ex_body_ta ex_while)) ex_handle_ph = None
   \<and> t_dtype ex_handle_ph = DT_RESOURCE
   \<and> forward_inputs_outside (ex_grad_graph_for ex_body_ta ex_while)
   \<and> map_sum id snd (grad_capture_helper (ex_grad_graph_for ex_body_ta ex_while) ex_handle_ph)
       = Inr ex_resource_ph
   \<and> map_of (inner_to_outer_tensor
               (fst (projr (grad_capture_helper (ex_grad_graph_for ex_body_ta ex_while)
                             ex_handle_ph)))) ex_handle_ph = Some ex_handle
   \<and> grad_capture_helper (ex_grad_graph_for ex_body ex_while) ex_handle_ph
       = Inl (ResourceCreated ex_handle_ph)"
proof -
  have h: "t_graph ex_handle_ph = g_id (forward_graph (ex_grad_graph_for ex_body_ta ex_while))"
    "skip_identities ex_handle_ph = Inr ex_handle_ph"
    "map_of (indirect_captures (ex_grad_graph_for ex_body_ta ex_while)) ex_handle_ph = None"
    "t_dtype ex_handle_ph = DT_RESOURCE"
    "forward_inputs_outside (ex_grad_graph_for ex_body_ta ex_while)"
    by code_simp+
  have e: "map_sum id snd (grad_capture_helper (ex_grad_graph_for ex_body_ta ex_while) ex_handle_ph)
       = Inr ex_resource_ph"
    "map_of (inner_to_outer_tensor
               (fst (projr (grad_capture_helper (ex_grad_graph_for ex_body_ta ex_while)
                             ex_handle_ph)))) ex_handle_ph = Some ex_handle"
    "grad_capture_helper (ex_grad_graph_for ex_body ex_while) ex_handle_ph
       = Inl (ResourceCreated ex_handle_ph)"
    by code_simp+
  from resource_capture_resolution [OF h] h e show ?thesis by simp
qed

subsection \<open>C9: each forward value is resolved once\<close>

text \<open>
  C9: once a forward value has been resolved, every later reference to it during the
  construction of the backward sub-program, whatever was referenced or created in between,
  returns the same value and leaves the sub-program unchanged, so nothing is popped a
  second time; the same holds for any value of the forward body that reaches it through
  identities. The first resolution of a value that is not resource-typed captures the
  output of the forward operator that holds its accumulator, pops one value off the
  captured list, caches the popped value and records the remaining list.
\<close>

theorem capture_resolved_once:
  assumes "forward_inputs_outside gg"
    and "grad_capture_helper gg t = Inr (gg1, c)"
    and "build_steps gg1 steps = Inr gg2"
  shows "grad_capture_helper gg2 t = Inr (gg2, c)
       \<and> (t_graph t = g_id (forward_graph gg) \<longrightarrow> t_graph t2 = g_id (forward_graph gg)
            \<longrightarrow> skip_identities t2 = skip_identities t
            \<longrightarrow> grad_capture_helper gg2 t2 = Inr (gg2, c))
       \<and> (t_graph t = g_id (forward_graph gg) \<longrightarrow> skip_identities t = Inr u
            \<longrightarrow> map_of (indirect_captures gg) u = None \<longrightarrow> t_dtype u \<noteq> DT_RESOURCE
            \<longrightarrow> (\<exists>acc index aph.
                   get_accumulator (forward_graph gg) u = Inr (Some acc)
                   \<and> index_of (fg_outputs (forward_graph gg)) acc = Some index
                   \<and> map_of (fg_captures gg1) (op_outputs (forward_while gg) ! index) = Some aph
                   \<and> op_type (t_op c) = ''TensorListPopBack'' \<and> op_inputs (t_op c) = [aph]
                   \<and> value_index c = 1
                   \<and> map_of (indirect_captures gg1) u = Some c
                   \<and> map_of (popped_tensor_lists gg1) aph
                       = Some (Tensor (t_op c) 0 DT_VARIANT (Some []))))"
proof (intro conjI impI)
  note f1 = grad_capture_helper_frame[OF assms(1,2)]
  then have o1: "forward_inputs_outside gg1"
    using assms(1) by (auto intro: forward_inputs_outside_cong)
  note f2 = build_steps_frame[OF o1 assms(3)]
  from f1 f2 have fg: "forward_graph gg2 = forward_graph gg"
    by (simp add: same_resolver_def)
  show "grad_capture_helper gg2 t = Inr (gg2, c)"
  proof (cases "t_graph t = g_id (forward_graph gg)")
    case False
    note ch = grad_capture_helper_outside[OF False assms(2)]
    from capture_helper_result[OF ch] f2 have "map_of (fg_captures gg2) t = Some c" by blast
    then have "capture_helper gg2 t = (gg2, c)" by (rule capture_helper_known)
    with False fg show ?thesis by (simp add: grad_capture_helper_def)
  next
    case True
    from resolved_is_cached[OF assms(1,2) True] obtain u' outer ph where
      s: "skip_identities t = Inr u'" and "cache_entry gg1 u' c outer ph"
      by (auto simp: cache_entry_def)
    with f2 have "cache_entry gg2 u' c outer ph" by blast
    with True s fg show ?thesis
      by (intro cache_entry_hit[of t gg2 u' c outer ph]) simp_all
  qed
next
  assume fwd: "t_graph t = g_id (forward_graph gg)" and t2: "t_graph t2 = g_id (forward_graph gg)"
    and s: "skip_identities t2 = skip_identities t"
  note f1 = grad_capture_helper_frame[OF assms(1,2)]
  then have o1: "forward_inputs_outside gg1"
    using assms(1) by (auto intro: forward_inputs_outside_cong)
  note f2 = build_steps_frame[OF o1 assms(3)]
  from f1 f2 have fg: "forward_graph gg2 = forward_graph gg"
    by (simp add: same_resolver_def)
  from resolved_is_cached[OF assms(1,2) fwd] obtain u' outer ph where
    s': "skip_identities t = Inr u'" and "cache_entry gg1 u' c outer ph"
    by (auto simp: cache_entry_def)
  with f2 have "cache_entry gg2 u' c outer ph" by blast
  with t2 s s' fg show "grad_capture_helper gg2 t2 = Inr (gg2, c)"
    by (intro cache_entry_hit[of t2 gg2 u' c outer ph]) simp_all
next
  assume fwd: "t_graph t = g_id (forward_graph gg)" and skip: "skip_identities t = Inr u"
    and nc: "map_of (indirect_captures gg) u = None" and res: "t_dtype u \<noteq> DT_RESOURCE"
  from grad_capture_helper_accumulator[OF fwd skip nc res assms(2)]
  show "\<exists>acc index aph.
                   get_accumulator (forward_graph gg) u = Inr (Some acc)
                   \<and> index_of (fg_outputs (forward_graph gg)) acc = Some index
                   \<and> map_of (fg_captures gg1) (op_outputs (forward_while gg) ! index) = Some aph
                   \<and> op_type (t_op c) = ''TensorListPopBack'' \<and> op_inputs (t_op c) = [aph]
                   \<and> value_index c = 1
                   \<and> map_of (indirect_captures gg1) u = Some c
                   \<and> map_of (popped_tensor_lists gg1) aph
                       = Some (Tensor (t_op c) 0 DT_VARIANT (Some []))"
    by blast
qed

theorem capture_resolved_once_witness:
  "forward_inputs_outside ex_resolver
   \<and> grad_capture_helper ex_resolver ex_y = Inr (fst ex_resolved, ex_popped)
   \<and> build_steps (fst ex_resolved) ex_later_steps = Inr ex_resolved_later
   \<and> grad_capture_helper ex_resolved_later ex_y = Inr (ex_resolved_later, ex_popped)
   \<and> map op_type (g_operations (fst ex_resolved)) = [''Placeholder'', ''TensorListPopBack'']
   \<and> map op_type (g_operations ex_resolved_later)
       = [''Placeholder'', ''TensorListPopBack'', ''Placeholder'', ''TensorListPopBack'',
          ''Placeholder'', ''TensorListPopBack'', ''Mul'']"
proof -
  have h: "forward_inputs_outside ex_resolver"
    "grad_capture_helper ex_resolver ex_y = Inr (fst ex_resolved, ex_popped)"
    "build_steps (fst ex_resolved) ex_later_steps = Inr ex_resolved_later"
    by code_simp+
  have l: "map op_type (g_operations (fst ex_resolved)) = [''Placeholder'', ''TensorListPopBack'']"
    "map op_type (g_operations ex_resolved_later)
       = [''Placeholder'', ''TensorListPopBack'', ''Placeholder'', ''TensorListPopBack'',
          ''Placeholder'', ''TensorListPopBack'', ''Mul'']"
    by code_simp+
  from capture_resolved_once [OF h] h l show ?thesis by simp
qed

subsection \<open>C10: the gradient of a TensorArray handle\<close>

text \<open>
  C10: when the gradient assembler returns, the gradient it returns at the position of a
  forward output that is a TensorArray handle is \<^verbatim>\<open>None\<close>, also when a gradient was
  supplied there: the incoming gradient is set to \<^verbatim>\<open>None\<close> before the assertion on
  trainable outputs is checked.
\<close>

theorem tensor_array_handle_gradient_is_none:
  assumes "WhileGrad mc is_trainable build_grad cond_id g body_g while_op grads = Inr res"
    and "i < length grads" and "i < length (op_outputs while_op)"
    and "is_tensor_array_handle mc (op_outputs while_op ! i) = Inr True"
  shows "wg_grads res ! i = None
       \<and> (\<exists>masked. mask_tensor_array_grads mc grads (op_outputs while_op) = Inr masked
             \<and> masked ! i = None
             \<and> all_trainable_have_grads is_trainable (op_outputs while_op) masked)"
proof -
  from WhileGrad_Inr[OF assms(1)] obtain masked where
    m: "mask_tensor_array_grads mc grads (op_outputs while_op) = Inr masked"
    and a: "all_trainable_have_grads is_trainable (op_outputs while_op) masked"
    and p: "none_pad masked (wg_outputs res) 2 = Inr (wg_grads res)"
    by blast
  from mask_tensor_array_grads_length[OF m] assms(2,3) have i: "i < length masked" by simp
  from mask_tensor_array_grads_nth[OF m i] assms(4) have mi: "masked ! i = None" by auto
  with none_pad_None[OF p i] m a show ?thesis by auto
qed

theorem tensor_array_handle_gradient_is_none_witness:
  "WhileGrad ex_maybe_captured ex_is_trainable ex_build_grad 4 ex_grad_outer ex_body_ta
     ex_while ex_incoming_grads = Inr ex_while_grad_result
   \<and> 2 < length ex_incoming_grads \<and> 2 < length (op_outputs ex_while)
   \<and> is_tensor_array_handle ex_maybe_captured (op_outputs ex_while ! 2) = Inr True
   \<and> ex_incoming_grads ! 2 = Some (outer_const 4)
   \<and> wg_grads ex_while_grad_result ! 2 = None"
proof -
  have h: "WhileGrad ex_maybe_captured ex_is_trainable ex_build_grad 4 ex_grad_outer ex_body_ta
     ex_while ex_incoming_grads = Inr ex_while_grad_result"
    "2 < length ex_incoming_grads" "2 < length (op_outputs ex_while)"
    "is_tensor_array_handle ex_maybe_captured (op_outputs ex_while ! 2) = Inr True"
    by code_simp+
  have e: "ex_incoming_grads ! 2 = Some (outer_const 4)" by code_simp
  from tensor_array_handle_gradient_is_none [OF h] h e show ?thesis by simp
qed

end
